theory Spec2Isabelle
  imports Complex_Main "HOL-Library.AList"
begin

section \<open>JavaScript values\<close>

text \<open>
  The exporter is a Node.js script. Every value it handles comes out of \<open>JSON.parse\<close>
  (the checkpoint file, the body of an HTTP response), is a string constant of the
  script, or is \<open>undefined\<close> (a read outside an array, an absent property). A value is
  therefore a JSON tree or \<open>undefined\<close>.

  A number is a binary64 value. The model keeps \<open>NaN\<close> and the two infinities apart from the
  finite values and holds a finite value as the rational it denotes; \<open>-0\<close> is identified with
  \<open>0\<close> (the script cannot tell them apart: both are falsy, both print as \<open>0\<close>).
  A string is a list of code units; a \<open>char\<close> stands for a code unit below 256.
  An object is the list of its own properties in creation order. Property names are taken
  to be ordinary names: not an array index and not a member of \<open>Object.prototype\<close>
  (for those the engine orders or resolves properties differently); the names the script
  uses, and every name of \<open>TABLES\<close>, are ordinary (lemma \<open>TABLES_ordinary\<close>).
\<close>

datatype jsnum = NaN | PosInf | NegInf | Fin rat

datatype jsval =
    JUndefined
  | JNull
  | JBool bool
  | JNum jsnum
  | JStr string
  | JArr "jsval list"
  | JObj "(string \<times> jsval) list"

text \<open>What the script can throw, or a promise it awaits can reject with.\<close>

datatype error =
    TypeError
  | SyntaxError
  | FetchFailed
  | FsError
  | TursoHttp nat string
  | TursoError jsval

definition bindE :: "error + 'a \<Rightarrow> ('a \<Rightarrow> error + 'b) \<Rightarrow> error + 'b" where
  "bindE m f = (case m of Inl err \<Rightarrow> Inl err | Inr x \<Rightarrow> f x)"

text \<open>\<open>xs.map(f)\<close> where \<open>f\<close> may throw: the first exception, in index order, ends the call.\<close>

fun mapE :: "('a \<Rightarrow> error + 'b) \<Rightarrow> 'a list \<Rightarrow> error + 'b list" where
  "mapE f [] = Inr []"
| "mapE f (x # xs) =
     (case f x of
        Inl err \<Rightarrow> Inl err
      | Inr y \<Rightarrow> (case mapE f xs of Inl err \<Rightarrow> Inl err | Inr ys \<Rightarrow> Inr (y # ys)))"

lemma mapE_cong [fundef_cong]:
  "xs = ys \<Longrightarrow> (\<And>x. x \<in> set ys \<Longrightarrow> f x = g x) \<Longrightarrow> mapE f xs = mapE g ys"
  by (induction ys arbitrary: xs) (auto split: sum.splits)

text \<open>\<open>xs.join(sep)\<close> on strings.\<close>

fun joinWith :: "string \<Rightarrow> string list \<Rightarrow> string" where
  "joinWith sep [] = []"
| "joinWith sep [x] = x"
| "joinWith sep (x # y # ys) = x @ sep @ joinWith sep (y # ys)"

fun truthy :: "jsval \<Rightarrow> bool" where
  "truthy JUndefined = False"
| "truthy JNull = False"
| "truthy (JBool b) = b"
| "truthy (JNum n) = (n \<noteq> NaN \<and> n \<noteq> Fin 0)"
| "truthy (JStr s) = (s \<noteq> [])"
| "truthy (JArr xs) = True"
| "truthy (JObj kvs) = True"

fun nullish :: "jsval \<Rightarrow> bool" where
  "nullish JUndefined = True"
| "nullish JNull = True"
| "nullish v = False"

fun typeof :: "jsval \<Rightarrow> string" where
  "typeof JUndefined = ''undefined''"
| "typeof JNull = ''object''"
| "typeof (JBool b) = ''boolean''"
| "typeof (JNum n) = ''number''"
| "typeof (JStr s) = ''string''"
| "typeof (JArr xs) = ''object''"
| "typeof (JObj kvs) = ''object''"

definition own :: "(string \<times> jsval) list \<Rightarrow> string \<Rightarrow> jsval" where
  "own kvs k = (case map_of kvs k of None \<Rightarrow> JUndefined | Some v \<Rightarrow> v)"

definition numOfNat :: "nat \<Rightarrow> jsval" where
  "numOfNat n = JNum (Fin (of_nat n))"

text \<open>\<open>v.k\<close> for an ordinary name \<open>k\<close>, on a value that is neither \<open>null\<close> nor \<open>undefined\<close>.\<close>

fun readProp :: "jsval \<Rightarrow> string \<Rightarrow> jsval" where
  "readProp (JObj kvs) k = own kvs k"
| "readProp (JArr xs) k = (if k = ''length'' then numOfNat (length xs) else JUndefined)"
| "readProp (JStr s) k = (if k = ''length'' then numOfNat (length s) else JUndefined)"
| "readProp v k = JUndefined"

definition getProp :: "jsval \<Rightarrow> string \<Rightarrow> error + jsval" where
  "getProp v k = (if nullish v then Inl TypeError else Inr (readProp v k))"

text \<open>The decimal name of an index, as \<open>v[i]\<close> looks it up on an object.\<close>

fun decimal :: "nat \<Rightarrow> string" where
  "decimal n =
     (if n < 10 then [''0123456789'' ! n]
      else decimal (n div 10) @ [''0123456789'' ! (n mod 10)])"

declare decimal.simps [simp del]

text \<open>\<open>v[i]\<close> for a number \<open>i = 0, 1, ...\<close>.\<close>

fun getIndex :: "jsval \<Rightarrow> nat \<Rightarrow> error + jsval" where
  "getIndex JUndefined i = Inl TypeError"
| "getIndex JNull i = Inl TypeError"
| "getIndex (JArr xs) i = Inr (if i < length xs then xs ! i else JUndefined)"
| "getIndex (JStr s) i = Inr (if i < length s then JStr [s ! i] else JUndefined)"
| "getIndex (JObj kvs) i = Inr (own kvs (decimal i))"
| "getIndex v i = Inr JUndefined"

text \<open>
  \<open>o[k] = v\<close> in sloppy mode (the script has no \<open>'use strict'\<close>): an own property is
  replaced in place, a new one goes last; on a primitive the assignment does nothing.
  On an array the engine records a property that is not an element, which neither
  \<open>JSON.stringify\<close> nor an index read sees; the model leaves the array as it is.
\<close>

fun setProp :: "jsval \<Rightarrow> string \<Rightarrow> jsval \<Rightarrow> error + jsval" where
  "setProp JUndefined k v = Inl TypeError"
| "setProp JNull k v = Inl TypeError"
| "setProp (JObj kvs) k v = Inr (JObj (AList.update k v kvs))"
| "setProp u k v = Inr u"

text \<open>\<open>k in o\<close>, for \<open>o\<close> an object or an array and \<open>k\<close> an ordinary name.\<close>

fun hasProperty :: "string \<Rightarrow> jsval \<Rightarrow> bool" where
  "hasProperty k (JObj kvs) = (k \<in> set (map fst kvs))"
| "hasProperty k (JArr xs) = (k = ''length'')"
| "hasProperty k v = False"

subsection \<open>String to number\<close>

text \<open>
  \<open>Number(s)\<close> on a string follows the grammar \<open>StringNumericLiteral\<close> of ECMAScript:
  white space is trimmed; the empty string is \<open>0\<close>; a decimal literal may carry a sign, a
  fraction and an exponent, or be \<open>Infinity\<close>; a literal with the prefix \<open>0x\<close>, \<open>0o\<close> or
  \<open>0b\<close> is an unsigned integer; anything else is \<open>NaN\<close>. The result is the value the literal
  denotes. (The engine then rounds it to binary64, which keeps every integer below
  \<open>2^53\<close> and never yields \<open>NaN\<close>.)
\<close>

definition isWhite :: "char \<Rightarrow> bool" where
  "isWhite c = ((of_char c :: nat) \<in> {9, 10, 11, 12, 13, 32, 160})"

definition trimString :: "string \<Rightarrow> string" where
  "trimString s = rev (dropWhile isWhite (rev (dropWhile isWhite s)))"

definition digitValue :: "char \<Rightarrow> nat option" where
  "digitValue c =
     (let n = (of_char c :: nat) in
      if 48 \<le> n \<and> n \<le> 57 then Some (n - 48)
      else if 97 \<le> n \<and> n \<le> 102 then Some (n - 87)
      else if 65 \<le> n \<and> n \<le> 70 then Some (n - 55)
      else None)"

definition isDigitIn :: "nat \<Rightarrow> char \<Rightarrow> bool" where
  "isDigitIn base c = (case digitValue c of None \<Rightarrow> False | Some d \<Rightarrow> d < base)"

definition natOfDigits :: "nat \<Rightarrow> string \<Rightarrow> nat" where
  "natOfDigits base s =
     foldl (\<lambda>a c. base * a + (case digitValue c of None \<Rightarrow> 0 | Some d \<Rightarrow> d)) 0 s"

definition scale10 :: "rat \<Rightarrow> int \<Rightarrow> rat" where
  "scale10 q ex = (if 0 \<le> ex then q * 10 ^ nat ex else q / 10 ^ nat (- ex))"

definition parseExponent :: "string \<Rightarrow> int option" where
  "parseExponent s =
     (case s of
        [] \<Rightarrow> Some 0
      | c # r \<Rightarrow>
          if c = CHR ''e'' \<or> c = CHR ''E'' then
            (let sgn = (case r of d # ds \<Rightarrow> if d = CHR ''-'' then - 1 else 1 | [] \<Rightarrow> (1::int));
                 ds = (case r of d # ds \<Rightarrow> if d = CHR ''-'' \<or> d = CHR ''+'' then ds else r
                       | [] \<Rightarrow> [])
             in if ds \<noteq> [] \<and> list_all (isDigitIn 10) ds
                then Some (sgn * int (natOfDigits 10 ds)) else None)
          else None)"

definition parseUnsignedDecimal :: "string \<Rightarrow> jsnum" where
  "parseUnsignedDecimal s =
     (if s = ''Infinity'' then PosInf
      else
        let ip = takeWhile (isDigitIn 10) s;
            r1 = dropWhile (isDigitIn 10) s;
            fp = (case r1 of c # r \<Rightarrow> if c = CHR ''.'' then takeWhile (isDigitIn 10) r else []
                  | [] \<Rightarrow> []);
            r2 = (case r1 of c # r \<Rightarrow> if c = CHR ''.'' then dropWhile (isDigitIn 10) r else r1
                  | [] \<Rightarrow> [])
        in if ip = [] \<and> fp = [] then NaN
           else (case parseExponent r2 of
                   None \<Rightarrow> NaN
                 | Some ex \<Rightarrow>
                     Fin (scale10 (of_nat (natOfDigits 10 (ip @ fp))) (ex - int (length fp)))))"

fun negate :: "jsnum \<Rightarrow> jsnum" where
  "negate NaN = NaN"
| "negate PosInf = NegInf"
| "negate NegInf = PosInf"
| "negate (Fin q) = Fin (- q)"

definition parseDecimal :: "string \<Rightarrow> jsnum" where
  "parseDecimal s =
     (case s of
        [] \<Rightarrow> NaN
      | c # r \<Rightarrow>
          if c = CHR ''+'' then parseUnsignedDecimal r
          else if c = CHR ''-'' then negate (parseUnsignedDecimal r)
          else parseUnsignedDecimal s)"

definition radixOf :: "char \<Rightarrow> nat option" where
  "radixOf c =
     (if c = CHR ''x'' \<or> c = CHR ''X'' then Some 16
      else if c = CHR ''o'' \<or> c = CHR ''O'' then Some 8
      else if c = CHR ''b'' \<or> c = CHR ''B'' then Some 2
      else None)"

definition parseNonDecimal :: "string \<Rightarrow> jsnum option" where
  "parseNonDecimal s =
     (case s of
        z # c # ds \<Rightarrow>
          (case radixOf c of
             None \<Rightarrow> None
           | Some base \<Rightarrow>
               if z = CHR ''0'' \<and> ds \<noteq> [] \<and> list_all (isDigitIn base) ds
               then Some (Fin (of_nat (natOfDigits base ds))) else None)
      | _ \<Rightarrow> None)"

definition StringToNumber :: "string \<Rightarrow> jsnum" where
  "StringToNumber s =
     (let t = trimString s in
      if t = [] then Fin 0
      else (case parseNonDecimal t of Some n \<Rightarrow> n | None \<Rightarrow> parseDecimal t))"

section \<open>The process environment\<close>

text \<open>
  One record holds what the script reads from outside itself: the constants it takes from
  \<open>process.env\<close> at start-up, the library functions whose text output no property here
  depends on, and the network.

  \<open>BATCH_SIZE\<close> and \<open>MAX_PAGES\<close> are natural numbers (1000 and 100 unless the environment
  says otherwise). \<open>fetch k req\<close> is what the \<open>k\<close>-th call of \<open>tursoExecute\<close> (counting
  from \<open>0\<close>) gets back for the request \<open>req\<close>: a rejection or a response. The answer may
  depend on \<open>k\<close>, so this covers a database that changes while the script runs.
\<close>

datatype arg = ArgNull | ArgInteger string | ArgText string

record request =
  req_url :: string
  req_token :: string
  req_sql :: string
  req_args :: "arg list"

text \<open>
  A response, by what the script reads of it: \<open>res.ok\<close>, \<open>res.status\<close>, what
  \<open>res.text()\<close> resolves to, and what \<open>res.json()\<close> resolves to (nothing when the body is
  not JSON and the promise rejects).
\<close>

record response =
  ok :: bool
  status :: nat
  bodyText :: string
  bodyJson :: "jsval option"

record env =
  TURSO_URL :: string
  TURSO_AUTH_TOKEN :: string
  OUTPUT_DIR :: string
  CURSOR_PATH :: string
  BATCH_SIZE :: nat
  MAX_PAGES :: nat
  DEFAULT_CURSOR :: string
  Number_toString :: "jsnum \<Rightarrow> string"
  JSON_parse :: "string \<Rightarrow> jsval option"
  JSON_stringify :: "jsval \<Rightarrow> string"
  JSON_stringify_pretty :: "jsval \<Rightarrow> string"
  path_join :: "string \<Rightarrow> string \<Rightarrow> string"
  path_dirname :: "string \<Rightarrow> string"
  fetch :: "nat \<Rightarrow> request \<Rightarrow> error + response"

text \<open>
  The state the script changes: regular files by path, the directories it has made, and a
  log of the calls of \<open>tursoExecute\<close> (parameters and outcome), kept for the statements
  about paging.
\<close>

record world =
  files :: "string \<Rightarrow> string option"
  dirs :: "string set"
  calls :: "(jsval list \<times> (error + jsval)) list"

subsection \<open>\<open>String(v)\<close> and \<open>Number(v)\<close>\<close>

text \<open>
  An object from \<open>JSON.parse\<close> has no callable property. It converts to
  \<open>[object Object]\<close> through \<open>Object.prototype.toString\<close>, unless it has an own property
  \<open>toString\<close>, which hides that method: then no conversion is left and the engine
  throws a \<open>TypeError\<close>. An array converts by joining its elements with commas,
  \<open>null\<close> and \<open>undefined\<close> as the empty string.
\<close>

fun ToString :: "env \<Rightarrow> jsval \<Rightarrow> error + string" where
  "ToString e JUndefined = Inr ''undefined''"
| "ToString e JNull = Inr ''null''"
| "ToString e (JBool b) = Inr (if b then ''true'' else ''false'')"
| "ToString e (JNum n) = Inr (Number_toString e n)"
| "ToString e (JStr s) = Inr s"
| "ToString e (JObj kvs) =
     (if hasProperty ''toString'' (JObj kvs) then Inl TypeError else Inr ''[object Object]'')"
| "ToString e (JArr xs) =
     (case mapE (\<lambda>x. if nullish x then Inr [] else ToString e x) xs of
        Inl err \<Rightarrow> Inl err
      | Inr ss \<Rightarrow> Inr (joinWith '','' ss))"

fun ToNumber :: "env \<Rightarrow> jsval \<Rightarrow> error + jsnum" where
  "ToNumber e JUndefined = Inr NaN"
| "ToNumber e JNull = Inr (Fin 0)"
| "ToNumber e (JBool b) = Inr (if b then Fin 1 else Fin 0)"
| "ToNumber e (JNum n) = Inr n"
| "ToNumber e (JStr s) = Inr (StringToNumber s)"
| "ToNumber e v = (case ToString e v of Inl err \<Rightarrow> Inl err | Inr s \<Rightarrow> Inr (StringToNumber s))"

section \<open>The export script\<close>

subsection \<open>\<open>normalizeTursoUrl\<close>\<close>

definition startsWith :: "string \<Rightarrow> string \<Rightarrow> bool" where
  "startsWith s p = (take (length p) s = p)"

definition endsWith :: "string \<Rightarrow> string \<Rightarrow> bool" where
  "endsWith s p = (length p \<le> length s \<and> drop (length s - length p) s = p)"

text \<open>\<open>s.replace(pat, rep)\<close> with a string pattern: the first occurrence only.\<close>

fun replaceFirst :: "string \<Rightarrow> string \<Rightarrow> string \<Rightarrow> string" where
  "replaceFirst pat rep [] = (if pat = [] then rep else [])"
| "replaceFirst pat rep (c # cs) =
     (if startsWith (c # cs) pat then rep @ drop (length pat) (c # cs)
      else c # replaceFirst pat rep cs)"

text \<open>\<open>s.replace(/\/$/, '')\<close>: one slash at the very end goes.\<close>

definition stripTrailingSlash :: "string \<Rightarrow> string" where
  "stripTrailingSlash s = (if s \<noteq> [] \<and> last s = CHR ''/'' then butlast s else s)"

definition normalizeTursoUrl :: "string \<Rightarrow> string" where
  "normalizeTursoUrl url =
     (let normalized =
        (if startsWith url ''libsql://''
         then replaceFirst ''libsql://'' ''https://'' url else url)
      in if \<not> endsWith normalized ''/v2/pipeline''
         then stripTrailingSlash normalized @ ''/v2/pipeline''
         else normalized)"

definition TURSO_PIPELINE_URL :: "env \<Rightarrow> string" where
  "TURSO_PIPELINE_URL e = normalizeTursoUrl (TURSO_URL e)"

subsection \<open>\<open>wrapArg\<close> and \<open>tursoExecute\<close>\<close>

definition wrapArg :: "env \<Rightarrow> jsval \<Rightarrow> error + arg" where
  "wrapArg e val =
     (if val = JNull \<or> val = JUndefined then Inr ArgNull
      else if typeof val = ''number'' then bindE (ToString e val) (\<lambda>s. Inr (ArgInteger s))
      else bindE (ToString e val) (\<lambda>s. Inr (ArgText s)))"

text \<open>\<open>v?.k\<close>\<close>

definition optChain :: "jsval \<Rightarrow> string \<Rightarrow> jsval" where
  "optChain v k = (if nullish v then JUndefined else readProp v k)"

text \<open>
  What \<open>tursoExecute\<close> does with the parsed body \<open>data\<close>:
  \<open>data.results && data.results[0]\<close>, the test for an absent or error result, and
  \<open>result.response?.result?.rows || []\<close>.
\<close>

definition readResult :: "jsval \<Rightarrow> error + jsval" where
  "readResult data =
     bindE (getProp data ''results'') (\<lambda>rs.
     bindE (if truthy rs then getIndex rs 0 else Inr rs) (\<lambda>result.
       if \<not> truthy result \<or> readProp result ''type'' = JStr ''error''
       then Inl (TursoError result)
       else
         (let rows = optChain (optChain (readProp result ''response'') ''result'') ''rows''
          in Inr (if truthy rows then rows else JArr []))))"

text \<open>
  The body of \<open>tursoExecute\<close>, for the \<open>k\<close>-th call: what it returns or throws.
  \<open>tursoExecute\<close> itself also enters the call in the log.
\<close>

definition tursoResult :: "env \<Rightarrow> nat \<Rightarrow> string \<Rightarrow> jsval list \<Rightarrow> error + jsval" where
  "tursoResult e k sql params =
     bindE (mapE (wrapArg e) params) (\<lambda>args.
     bindE (fetch e k
              \<lparr>req_url = TURSO_PIPELINE_URL e, req_token = TURSO_AUTH_TOKEN e,
               req_sql = sql, req_args = args\<rparr>) (\<lambda>res.
       if \<not> ok res then Inl (TursoHttp (status res) (bodyText res))
       else bindE (case bodyJson res of
                     None \<Rightarrow> Inl SyntaxError
                   | Some data \<Rightarrow> Inr data) readResult))"

definition tursoExecute :: "env \<Rightarrow> world \<Rightarrow> string \<Rightarrow> jsval list \<Rightarrow> (error + jsval) \<times> world" where
  "tursoExecute e w sql params =
     (let outcome = tursoResult e (length (calls w)) sql params
      in (outcome, w\<lparr>calls := calls w @ [(params, outcome)]\<rparr>))"

subsection \<open>\<open>parseCell\<close> and \<open>ensureNumber\<close>\<close>

definition parseCell :: "jsval \<Rightarrow> jsval" where
  "parseCell cell =
     (if truthy cell \<and> typeof cell = ''object'' \<and> hasProperty ''value'' cell
      then readProp cell ''value'' else cell)"

text \<open>
  \<open>ensureNumber(value, fallback = 0)\<close>. The script always calls it with one argument, so
  \<open>fallback\<close> is \<open>0\<close> there.
\<close>

definition ensureNumber :: "env \<Rightarrow> jsval \<Rightarrow> jsnum \<Rightarrow> error + jsnum" where
  "ensureNumber e val fallback =
     (if val = JNull \<or> val = JUndefined \<or> val = JStr [] then Inr fallback
      else bindE (ToNumber e val) (\<lambda>num. Inr (if num = NaN then fallback else num)))"

subsection \<open>Files and the checkpoint\<close>

text \<open>
  The file system holds regular files by path. Apart from reading a file that is not
  there, a file operation is taken to succeed.
\<close>

definition existsSync :: "world \<Rightarrow> string \<Rightarrow> bool" where
  "existsSync w p = (files w p \<noteq> None)"

definition unlinkSync :: "world \<Rightarrow> string \<Rightarrow> world" where
  "unlinkSync w p = w\<lparr>files := (files w)(p := None)\<rparr>"

definition readFileSync :: "world \<Rightarrow> string \<Rightarrow> error + string" where
  "readFileSync w p = (case files w p of None \<Rightarrow> Inl FsError | Some s \<Rightarrow> Inr s)"

definition writeFileSync :: "world \<Rightarrow> string \<Rightarrow> string \<Rightarrow> world" where
  "writeFileSync w p s = w\<lparr>files := (files w)(p \<mapsto> s)\<rparr>"

definition appendFileSync :: "world \<Rightarrow> string \<Rightarrow> string \<Rightarrow> world" where
  "appendFileSync w p s =
     w\<lparr>files := (files w)(p \<mapsto> (case files w p of None \<Rightarrow> s | Some old \<Rightarrow> old @ s))\<rparr>"

definition ensureDir :: "world \<Rightarrow> string \<Rightarrow> world" where
  "ensureDir w dir = w\<lparr>dirs := insert dir (dirs w)\<rparr>"

definition parseJson :: "env \<Rightarrow> string \<Rightarrow> error + jsval" where
  "parseJson e raw = (case JSON_parse e raw of None \<Rightarrow> Inl SyntaxError | Some v \<Rightarrow> Inr v)"

text \<open>\<open>try { ... } catch (err) { ... }\<close>\<close>

definition tryCatch :: "error + 'a \<Rightarrow> (error \<Rightarrow> error + 'a) \<Rightarrow> error + 'a" where
  "tryCatch m handler = (case m of Inl err \<Rightarrow> handler err | Inr v \<Rightarrow> Inr v)"

definition loadCursors :: "env \<Rightarrow> world \<Rightarrow> error + jsval" where
  "loadCursors e w =
     tryCatch (bindE (readFileSync w (CURSOR_PATH e)) (parseJson e))
       (\<lambda>err. Inr (JObj []))"

definition saveCursors :: "env \<Rightarrow> jsval \<Rightarrow> world \<Rightarrow> world" where
  "saveCursors e cursors w =
     writeFileSync (ensureDir w (path_dirname e (CURSOR_PATH e))) (CURSOR_PATH e)
       (JSON_stringify_pretty e cursors)"

subsection \<open>Table descriptors\<close>

record table =
  name :: string
  columns :: "string list"
  cursorExpr :: string
  numericColumns :: "string list"

definition buildSelectSql :: "table \<Rightarrow> string" where
  "buildSelectSql t =
     ''SELECT '' @ joinWith '', '' (columns t) @ '', '' @ cursorExpr t @ '' AS cursor_ts '' @
     ''FROM '' @ name t @ '' WHERE '' @ cursorExpr t @ '' > ? '' @
     ''ORDER BY '' @ cursorExpr t @ '' LIMIT ?''"

text \<open>\<open>table.selectSql\<close>, filled in for every table before \<open>main\<close> runs.\<close>

definition selectSql :: "table \<Rightarrow> string" where
  "selectSql t = buildSelectSql t"

definition TABLES :: "table list" where
  "TABLES =
   [\<lparr>name = ''analytics_events'',
     columns = [''id'', ''user_id'', ''session_id'', ''event_type'', ''event_data'',
                ''created_at''],
     cursorExpr = ''created_at'',
     numericColumns = []\<rparr>,
    \<lparr>name = ''level_analytics'',
     columns = [''id'', ''session_id'', ''level_number'', ''kites_cut'',
                ''play_time_seconds'', ''outcome'', ''started_at'', ''ended_at''],
     cursorExpr = ''started_at'',
     numericColumns = [''level_number'', ''kites_cut'', ''play_time_seconds'']\<rparr>,
    \<lparr>name = ''events'',
     columns = [''id'', ''user_id'', ''session_id'', ''event_type'', ''event_data'',
                ''created_at'', ''deleted_at''],
     cursorExpr = ''created_at'',
     numericColumns = []\<rparr>,
    \<lparr>name = ''level_results'',
     columns = [''id'', ''session_id'', ''level_number'', ''started_at'', ''ended_at'',
                ''kites_cut'', ''enemies_at_start'', ''outcome'', ''play_time_seconds'',
                ''deleted_at''],
     cursorExpr = ''started_at'',
     numericColumns = [''level_number'', ''kites_cut'', ''enemies_at_start'',
                       ''play_time_seconds'']\<rparr>,
    \<lparr>name = ''users'',
     columns = [''id'', ''display_name'', ''is_anonymous'', ''created_at'', ''updated_at'',
                ''total_games'', ''total_wins'', ''highest_level'', ''deleted_at'', ''email'',
                ''avatar_url'', ''auth_provider'', ''coins'', ''experience_points'', ''level'',
                ''highest_level_reached'', ''total_play_time_seconds'', ''last_platform'',
                ''fcm_token'', ''last_login_at'', ''total_kites_cut''],
     cursorExpr = ''COALESCE(updated_at, created_at)'',
     numericColumns = [''is_anonymous'', ''total_games'', ''total_wins'', ''highest_level'',
                       ''coins'', ''experience_points'', ''level'', ''highest_level_reached'',
                       ''total_play_time_seconds'', ''total_kites_cut'']\<rparr>,
    \<lparr>name = ''game_sessions'',
     columns = [''id'', ''user_id'', ''started_at'', ''ended_at'', ''final_level'',
                ''total_kites_cut'', ''total_play_time_seconds'', ''outcome'', ''deleted_at'',
                ''rewarded_kites_cut'', ''rewarded_play_time_seconds'', ''updated_at'',
                ''total_games_rewarded'', ''rewarded_final_level''],
     cursorExpr = ''COALESCE(updated_at, started_at)'',
     numericColumns = [''final_level'', ''total_kites_cut'', ''total_play_time_seconds'',
                       ''rewarded_kites_cut'', ''rewarded_play_time_seconds'',
                       ''total_games_rewarded'', ''rewarded_final_level'']\<rparr>,
    \<lparr>name = ''leaderboard'',
     columns = [''user_id'', ''display_name'', ''highest_level'', ''total_kites_cut'',
                ''best_time_seconds'', ''updated_at''],
     cursorExpr = ''updated_at'',
     numericColumns = [''highest_level'', ''total_kites_cut'', ''best_time_seconds'']\<rparr>]"

subsection \<open>\<open>exportTable\<close>\<close>

text \<open>
  The callback of \<open>rows.map\<close>: the first loop fills \<open>mapped\<close> from the cells by position,
  the second coerces the numeric columns that \<open>mapped\<close> has.
\<close>

fun assignColumns ::
  "string list \<Rightarrow> nat \<Rightarrow> jsval \<Rightarrow> (string \<times> jsval) list \<Rightarrow> error + (string \<times> jsval) list" where
  "assignColumns [] i row mapped = Inr mapped"
| "assignColumns (c # cs) i row mapped =
     (case getIndex row i of
        Inl err \<Rightarrow> Inl err
      | Inr cell \<Rightarrow> assignColumns cs (Suc i) row (AList.update c (parseCell cell) mapped))"

fun coerceNumeric ::
  "env \<Rightarrow> string list \<Rightarrow> (string \<times> jsval) list \<Rightarrow> error + (string \<times> jsval) list" where
  "coerceNumeric e [] mapped = Inr mapped"
| "coerceNumeric e (k # ks) mapped =
     (if hasProperty k (JObj mapped)
      then (case ensureNumber e (own mapped k) (Fin 0) of
              Inl err \<Rightarrow> Inl err
            | Inr n \<Rightarrow> coerceNumeric e ks (AList.update k (JNum n) mapped))
      else coerceNumeric e ks mapped)"

definition mapRecord :: "env \<Rightarrow> table \<Rightarrow> jsval \<Rightarrow> error + (string \<times> jsval) list" where
  "mapRecord e t row =
     bindE (assignColumns (columns t) 0 row []) (coerceNumeric e (numericColumns t))"

definition mapRow :: "env \<Rightarrow> table \<Rightarrow> jsval \<Rightarrow> error + string" where
  "mapRow e t row = bindE (mapRecord e t row) (\<lambda>mapped. Inr (JSON_stringify e (JObj mapped)))"

text \<open>
  One turn of the page loop, from the call of \<open>tursoExecute\<close> to the test of the page
  size: it throws, leaves the loop (with the watermark and \<open>wroteAny\<close>), or goes on to the
  next page (with the watermark; \<open>wroteAny\<close> is then \<open>true\<close>).
\<close>

datatype step = Fail error | Stop jsval bool | Next jsval

definition advance :: "table \<Rightarrow> jsval list \<Rightarrow> jsval \<Rightarrow> error + jsval" where
  "advance t rs cursor =
     bindE (getIndex (JArr rs) (length rs - 1)) (\<lambda>row.
     bindE (getIndex row (length (columns t))) (\<lambda>cell.
       (let lastCursor = parseCell cell
        in Inr (if truthy lastCursor then lastCursor else cursor))))"

definition pageStep :: "env \<Rightarrow> table \<Rightarrow> string \<Rightarrow> jsval \<Rightarrow> bool \<Rightarrow> world \<Rightarrow> step \<times> world" where
  "pageStep e t outFile cursor wroteAny w =
     (case tursoExecute e w (selectSql t) [cursor, numOfNat (BATCH_SIZE e)] of
        (Inl err, w1) \<Rightarrow> (Fail err, w1)
      | (Inr rows, w1) \<Rightarrow>
          if \<not> truthy (readProp rows ''length'') then (Stop cursor wroteAny, w1)
          else
            (case rows of
               JArr rs \<Rightarrow>
                 (case mapE (mapRow e t) rs of
                    Inl err \<Rightarrow> (Fail err, w1)
                  | Inr ndjson \<Rightarrow>
                      (let w2 = appendFileSync w1 outFile
                                  (joinWith [CHR 0x0A] ndjson @ [CHR 0x0A])
                       in case advance t rs cursor of
                            Inl err \<Rightarrow> (Fail err, w2)
                          | Inr cursor' \<Rightarrow>
                              if length rs < BATCH_SIZE e then (Stop cursor' True, w2)
                              else (Next cursor', w2)))
             | _ \<Rightarrow> (Fail TypeError, w1)))"

function pageLoop ::
  "env \<Rightarrow> table \<Rightarrow> string \<Rightarrow> nat \<Rightarrow> jsval \<Rightarrow> bool \<Rightarrow> world \<Rightarrow> (error + jsval \<times> bool) \<times> world" where
  "pageLoop e t outFile page cursor wroteAny w =
     (if page < MAX_PAGES e then
        (case pageStep e t outFile cursor wroteAny w of
           (Fail err, w') \<Rightarrow> (Inl err, w')
         | (Stop cursor' wroteAny', w') \<Rightarrow> (Inr (cursor', wroteAny'), w')
         | (Next cursor', w') \<Rightarrow> pageLoop e t outFile (page + 1) cursor' True w')
      else (Inr (cursor, wroteAny), w))"
  by pat_completeness auto
termination
  by (relation "measure (\<lambda>(e, t, outFile, page, cursor, wroteAny, w). MAX_PAGES e - page)") auto

declare pageLoop.simps [simp del]

definition outFileOf :: "env \<Rightarrow> table \<Rightarrow> string" where
  "outFileOf e t = path_join e (OUTPUT_DIR e) (name t @ ''.ndjson'')"

definition exportTable :: "env \<Rightarrow> table \<Rightarrow> jsval \<Rightarrow> world \<Rightarrow> (error + jsval) \<times> world" where
  "exportTable e t cursors w =
     (case getProp cursors (name t) of
        Inl err \<Rightarrow> (Inl err, w)
      | Inr c \<Rightarrow>
          (let cursor = (if truthy c then c else JStr (DEFAULT_CURSOR e));
               outFile = outFileOf e t;
               w0 = (if existsSync w outFile then unlinkSync w outFile else w)
           in case pageLoop e t outFile 0 cursor False w0 of
                (Inl err, w1) \<Rightarrow> (Inl err, w1)
              | (Inr (cursor', wroteAny), w1) \<Rightarrow>
                  if wroteAny
                  then (case setProp cursors (name t) cursor' of
                          Inl err \<Rightarrow> (Inl err, w1)
                        | Inr cursors' \<Rightarrow> (Inr cursors', w1))
                  else (Inr cursors, w1)))"

subsection \<open>\<open>main\<close>\<close>

text \<open>\<open>for (const table of TABLES) await exportTable(table, cursors)\<close>\<close>

fun exportAll :: "env \<Rightarrow> table list \<Rightarrow> jsval \<Rightarrow> world \<Rightarrow> (error + jsval) \<times> world" where
  "exportAll e [] cursors w = (Inr cursors, w)"
| "exportAll e (t # ts) cursors w =
     (case exportTable e t cursors w of
        (Inl err, w') \<Rightarrow> (Inl err, w')
      | (Inr cursors', w') \<Rightarrow> exportAll e ts cursors' w')"

definition main :: "env \<Rightarrow> world \<Rightarrow> (error + unit) \<times> world" where
  "main e w =
     (let w1 = ensureDir w (OUTPUT_DIR e) in
      case loadCursors e w1 of
        Inl err \<Rightarrow> (Inl err, w1)
      | Inr cursors \<Rightarrow>
          (case exportAll e TABLES cursors w1 of
             (Inl err, w2) \<Rightarrow> (Inl err, w2)
           | (Inr cursors', w2) \<Rightarrow> (Inr (), saveCursors e cursors' w2)))"

section \<open>Notions the claims are stated with\<close>

text \<open>
  The cell of a row at a position, \<open>undefined\<close> where the read would throw; the rows of a
  logged outcome (none unless it is an array); the cursor value of the last row of a page;
  and the rule for the watermark as the specification words it.
\<close>

definition cellAt :: "jsval \<Rightarrow> nat \<Rightarrow> jsval" where
  "cellAt row i = (case getIndex row i of Inl err \<Rightarrow> JUndefined | Inr v \<Rightarrow> v)"

definition rowsOf :: "error + jsval \<Rightarrow> jsval list" where
  "rowsOf r = (case r of Inr (JArr rs) \<Rightarrow> rs | _ \<Rightarrow> [])"

definition cursorOf :: "table \<Rightarrow> jsval \<Rightarrow> jsval" where
  "cursorOf t row = parseCell (cellAt row (length (columns t)))"

definition lastCursorOf :: "table \<Rightarrow> jsval list \<Rightarrow> jsval" where
  "lastCursorOf t rs = cursorOf t (cellAt (JArr rs) (length rs - 1))"

definition watermarkAfter :: "table \<Rightarrow> jsval \<Rightarrow> jsval list \<Rightarrow> jsval" where
  "watermarkAfter t cursor rs =
     (if truthy (lastCursorOf t rs) then lastCursorOf t rs else cursor)"

text \<open>
  \<open>follows e t c cs\<close>: the log \<open>cs\<close> is what paging from the watermark \<open>c\<close> sends. Every query
  carries the current watermark and the batch size; a query is followed by another only
  after a page that is not empty and not short, and the next query then carries the
  watermark after that page.
\<close>

fun follows :: "env \<Rightarrow> table \<Rightarrow> jsval \<Rightarrow> (jsval list \<times> (error + jsval)) list \<Rightarrow> bool" where
  "follows e t c [] = True"
| "follows e t c ((ps, r) # rest) =
     (ps = [c, numOfNat (BATCH_SIZE e)] \<and>
      (rest = [] \<or>
       (rowsOf r \<noteq> [] \<and> BATCH_SIZE e \<le> length (rowsOf r) \<and>
        follows e t (watermarkAfter t c (rowsOf r)) rest)))"

text \<open>The watermark after all pages of a log, and whether any page of it had a row.\<close>

fun finalWatermark :: "table \<Rightarrow> jsval \<Rightarrow> (jsval list \<times> (error + jsval)) list \<Rightarrow> jsval" where
  "finalWatermark t c [] = c"
| "finalWatermark t c ((ps, r) # rest) =
     finalWatermark t (if rowsOf r = [] then c else watermarkAfter t c (rowsOf r)) rest"

definition wrote :: "(jsval list \<times> (error + jsval)) list \<Rightarrow> bool" where
  "wrote cs = list_ex (\<lambda>(ps, r). rowsOf r \<noteq> []) cs"

text \<open>
  Why a successful paging of at most \<open>n\<close> turns ended: all \<open>n\<close> turns were used, or the
  last page was empty or shorter than the batch size.
\<close>

definition stopped :: "env \<Rightarrow> nat \<Rightarrow> (jsval list \<times> (error + jsval)) list \<Rightarrow> bool" where
  "stopped e n cs =
     (length cs = n \<or>
      (cs \<noteq> [] \<and>
       (rowsOf (snd (last cs)) = [] \<or> length (rowsOf (snd (last cs))) < BATCH_SIZE e)))"

text \<open>What one turn of the loop leaves behind, by the outcome \<open>r\<close> of its query.\<close>

definition stepOk :: "env \<Rightarrow> table \<Rightarrow> jsval \<Rightarrow> bool \<Rightarrow> step \<Rightarrow> error + jsval \<Rightarrow> bool" where
  "stepOk e t c wa s r =
     (case s of
        Next c' \<Rightarrow> rowsOf r \<noteq> [] \<and> BATCH_SIZE e \<le> length (rowsOf r) \<and>
                   c' = watermarkAfter t c (rowsOf r)
      | Stop c' wa' \<Rightarrow>
          (if rowsOf r = [] then c' = c \<and> wa' = wa
           else length (rowsOf r) < BATCH_SIZE e \<and> c' = watermarkAfter t c (rowsOf r) \<and> wa')
      | Fail err \<Rightarrow> True)"

text \<open>The watermark a run of \<open>exportTable\<close> starts from.\<close>

definition initialCursor :: "env \<Rightarrow> table \<Rightarrow> jsval \<Rightarrow> jsval" where
  "initialCursor e t cursors =
     (if truthy (readProp cursors (name t)) then readProp cursors (name t)
      else JStr (DEFAULT_CURSOR e))"

text \<open>A cell of a numeric column after coercion, as it stands in the output record.\<close>

definition coerceValue :: "env \<Rightarrow> jsval \<Rightarrow> jsval" where
  "coerceValue e v = (case ensureNumber e v (Fin 0) of Inl err \<Rightarrow> v | Inr n \<Rightarrow> JNum n)"

text \<open>The calls a run added to the log.\<close>

definition newCalls :: "world \<Rightarrow> world \<Rightarrow> (jsval list \<times> (error + jsval)) list" where
  "newCalls w w' = drop (length (calls w)) (calls w')"

text \<open>
  A value is \<open>safe\<close> when no object in it has a property named \<open>toString\<close>, so that
  \<open>String\<close> and \<open>Number\<close> do not throw on it or on a part of it.
\<close>

fun safe :: "jsval \<Rightarrow> bool" where
  "safe (JObj kvs) = (\<not> hasProperty ''toString'' (JObj kvs) \<and> list_all (\<lambda>kv. safe (snd kv)) kvs)"
| "safe (JArr xs) = list_all safe xs"
| "safe v = True"

text \<open>A row as the database sends it: an array of safe cells.\<close>

fun goodRow :: "jsval \<Rightarrow> bool" where
  "goodRow (JArr cells) = list_all safe cells"
| "goodRow v = False"

text \<open>
  The \<open>j\<close>-th page of a table with the rows \<open>pending\<close>, for the batch size \<open>b\<close>: the first
  \<open>b\<close> rows that the pages before it have not delivered.
\<close>

definition pageOf :: "nat \<Rightarrow> jsval list \<Rightarrow> nat \<Rightarrow> jsval list" where
  "pageOf b pending j = take b (drop (j * b) pending)"

text \<open>A value of JSON: \<open>undefined\<close> occurs nowhere in it.\<close>

fun isJson :: "jsval \<Rightarrow> bool" where
  "isJson JUndefined = False"
| "isJson (JObj kvs) = list_all (\<lambda>kv. isJson (snd kv)) kvs"
| "isJson (JArr xs) = list_all isJson xs"
| "isJson v = True"

text \<open>
  The names of a descriptor are ordinary: no column starts with a digit or is a member of
  \<open>Object.prototype\<close>, and no column is listed twice.
\<close>

definition prototypeNames :: "string list" where
  "prototypeNames =
     [''constructor'', ''hasOwnProperty'', ''isPrototypeOf'', ''propertyIsEnumerable'',
      ''toLocaleString'', ''toString'', ''valueOf'', ''__proto__'', ''__defineGetter__'',
      ''__defineSetter__'', ''__lookupGetter__'', ''__lookupSetter__'']"

definition ordinaryName :: "string \<Rightarrow> bool" where
  "ordinaryName k =
     (k \<notin> set prototypeNames \<and> (case k of [] \<Rightarrow> True | c # cs \<Rightarrow> \<not> isDigitIn 10 c))"

definition ordinaryTable :: "table \<Rightarrow> bool" where
  "ordinaryTable t =
     (distinct (columns t) \<and> list_all ordinaryName (name t # columns t @ numericColumns t))"

section \<open>An example environment\<close>

text \<open>
  A concrete environment to run the script in. \<open>jsonText\<close> and \<open>jsonPretty\<close> are
  \<open>JSON.stringify(v)\<close> and \<open>JSON.stringify(v, null, 2)\<close> on values whose strings need no
  escape and whose numbers are natural numbers; \<open>exampleParse\<close> is \<open>JSON.parse\<close> on the
  texts this section uses; \<open>path.join\<close> puts a slash between its arguments.
\<close>

definition exampleNumber :: "jsnum \<Rightarrow> string" where
  "exampleNumber n =
     (case n of NaN \<Rightarrow> ''NaN'' | PosInf \<Rightarrow> ''Infinity'' | NegInf \<Rightarrow> ''-Infinity''
      | Fin q \<Rightarrow> decimal (nat \<lfloor>q\<rfloor>))"

definition quoted :: "string \<Rightarrow> string" where
  "quoted s = [CHR 0x22] @ s @ [CHR 0x22]"

fun jsonText :: "jsval \<Rightarrow> string" where
  "jsonText JUndefined = ''null''"
| "jsonText JNull = ''null''"
| "jsonText (JBool b) = (if b then ''true'' else ''false'')"
| "jsonText (JNum n) = (case n of Fin q \<Rightarrow> exampleNumber n | _ \<Rightarrow> ''null'')"
| "jsonText (JStr s) = quoted s"
| "jsonText (JArr xs) = ''['' @ joinWith '','' (map jsonText xs) @ '']''"
| "jsonText (JObj kvs) =
     ''{'' @ joinWith '',''
       (map (\<lambda>kv. quoted (fst kv) @ '':'' @ jsonText (snd kv))
          (filter (\<lambda>kv. snd kv \<noteq> JUndefined) kvs)) @ ''}''"

fun jsonPretty :: "string \<Rightarrow> jsval \<Rightarrow> string" where
  "jsonPretty ind (JArr xs) =
     (if xs = [] then ''[]''
      else ''['' @ [CHR 0x0A] @
           joinWith ('','' @ [CHR 0x0A])
             (map (\<lambda>x. ind @ ''  '' @ jsonPretty (ind @ ''  '') x) xs) @
           [CHR 0x0A] @ ind @ '']'')"
| "jsonPretty ind (JObj kvs) =
     (if filter (\<lambda>kv. snd kv \<noteq> JUndefined) kvs = [] then ''{}''
      else ''{'' @ [CHR 0x0A] @
           joinWith ('','' @ [CHR 0x0A])
             (map (\<lambda>kv. ind @ ''  '' @ quoted (fst kv) @ '': '' @
                        jsonPretty (ind @ ''  '') (snd kv))
                (filter (\<lambda>kv. snd kv \<noteq> JUndefined) kvs)) @
           [CHR 0x0A] @ ind @ ''}'')"
| "jsonPretty ind v = jsonText v"

text \<open>A response of the database with the given rows, and an HTTP response carrying it.\<close>

definition okBody :: "jsval list \<Rightarrow> jsval" where
  "okBody rows =
     JObj [(''results'',
            JArr [JObj [(''type'', JStr ''ok''),
                        (''response'',
                         JObj [(''type'', JStr ''execute''),
                               (''result'', JObj [(''rows'', JArr rows)])])]])]"

definition okResponse :: "jsval list \<Rightarrow> error + response" where
  "okResponse rows =
     Inr \<lparr>ok = True, status = 200, bodyText = jsonText (okBody rows),
          bodyJson = Some (okBody rows)\<rparr>"

definition textCell :: "string \<Rightarrow> jsval" where
  "textCell s = JObj [(''type'', JStr ''text''), (''value'', JStr s)]"

text \<open>
  Rows of \<open>leaderboard\<close> (six columns and the cursor): a well-formed one, one with junk in
  the numeric columns, one whose cursor is the number \<open>0\<close>, and one whose cursor is \<open>null\<close>.
\<close>

definition rowA :: jsval where
  "rowA = JArr [textCell ''u1'', textCell ''Asha'', textCell ''7'', textCell ''42'',
                textCell ''93'', textCell ''2024-03-01T10:00:00Z'',
                textCell ''2024-03-01T10:00:00Z'']"

definition rowB :: jsval where
  "rowB = JArr [textCell ''u2'', textCell ''Ben'', textCell ''abc'', JNull, textCell [],
                textCell ''2024-03-02T10:00:00Z'', textCell ''2024-03-02T10:00:00Z'']"

definition rowZero :: jsval where
  "rowZero = JArr [textCell ''u3'', textCell ''Cy'', textCell ''1'', textCell ''2'',
                   textCell ''3'', JNum (Fin 0), JNum (Fin 0)]"

definition rowNull :: jsval where
  "rowNull = JArr [textCell ''u4'', textCell ''Di'', textCell ''1'', textCell ''2'',
                   textCell ''3'', JNull, JNull]"

definition leaderboard :: table where
  "leaderboard = TABLES ! 6"

definition checkpoint :: jsval where
  "checkpoint = JObj [(''leaderboard'', JStr ''2024-01-01T00:00:00Z'')]"

definition exampleParse :: "string \<Rightarrow> jsval option" where
  "exampleParse = map_of (map (\<lambda>v. (jsonPretty [] v, v)) [JObj [], checkpoint])"

definition exampleEnv :: env where
  "exampleEnv =
     \<lparr>TURSO_URL = ''libsql://db.example.io'', TURSO_AUTH_TOKEN = ''secret'',
      OUTPUT_DIR = ''analytics_work/ndjson'', CURSOR_PATH = ''analytics_store/cursors.json'',
      BATCH_SIZE = 1, MAX_PAGES = 3, DEFAULT_CURSOR = ''1970-01-01T00:00:00Z'',
      Number_toString = exampleNumber, JSON_parse = exampleParse,
      JSON_stringify = jsonText, JSON_stringify_pretty = jsonPretty [],
      path_join = (\<lambda>dir file. dir @ ''/'' @ file),
      path_dirname = (\<lambda>p. ''analytics_store''),
      fetch = (\<lambda>k req. okResponse [])\<rparr>"

text \<open>
  Networks: one that hands out the pending rows a page at a time, one that fails the
  second call, one whose only row has the cursor \<open>0\<close>, and one that always sends the same
  full page with a \<open>null\<close> cursor.
\<close>

definition pagedFetch :: "jsval list \<Rightarrow> nat \<Rightarrow> nat \<Rightarrow> request \<Rightarrow> error + response" where
  "pagedFetch pending b k req = okResponse (pageOf b pending k)"

definition failingFetch :: "nat \<Rightarrow> request \<Rightarrow> error + response" where
  "failingFetch k req =
     (if k = 1 then Inr \<lparr>ok = False, status = 500, bodyText = ''down'', bodyJson = None\<rparr>
      else okResponse [])"

definition zeroFetch :: "nat \<Rightarrow> request \<Rightarrow> error + response" where
  "zeroFetch k req = okResponse [rowZero]"

definition stuckFetch :: "nat \<Rightarrow> request \<Rightarrow> error + response" where
  "stuckFetch k req = okResponse [rowNull, rowNull]"

definition emptyWorld :: world where
  "emptyWorld = \<lparr>files = Map.empty, dirs = {}, calls = []\<rparr>"

definition staleWorld :: world where
  "staleWorld =
     \<lparr>files = [''analytics_work/ndjson/leaderboard.ndjson'' \<mapsto> ''stale'',
               ''analytics_store/cursors.json'' \<mapsto> jsonPretty [] checkpoint],
      dirs = {}, calls = []\<rparr>"

definition garbledWorld :: world where
  "garbledWorld =
     \<lparr>files = [''analytics_store/cursors.json'' \<mapsto> ''{oops''], dirs = {}, calls = []\<rparr>"

definition pagedEnv :: env where
  "pagedEnv = exampleEnv\<lparr>fetch := pagedFetch [rowA, rowB] 1\<rparr>"

definition cappedEnv :: env where
  "cappedEnv = exampleEnv\<lparr>fetch := pagedFetch [rowA] 1, MAX_PAGES := 1\<rparr>"

definition failingEnv :: env where
  "failingEnv = exampleEnv\<lparr>fetch := failingFetch\<rparr>"

definition zeroEnv :: env where
  "zeroEnv = exampleEnv\<lparr>fetch := zeroFetch\<rparr>"

definition stuckEnv :: env where
  "stuckEnv = exampleEnv\<lparr>fetch := stuckFetch, BATCH_SIZE := 2\<rparr>"

text \<open>
  An order on watermarks for the examples: time stamps of one format compare as the
  numbers their digits spell.
\<close>

definition stamp :: "jsval \<Rightarrow> nat" where
  "stamp v = (case v of JStr s \<Rightarrow> natOfDigits 10 (filter (isDigitIn 10) s) | _ \<Rightarrow> 0)"

definition stampOrder :: "jsval \<Rightarrow> jsval \<Rightarrow> bool" where
  "stampOrder a b = (stamp a < stamp b)"

section \<open>Properties of the script\<close>

subsection \<open>The pipeline URL\<close>

lemma replaceFirst_prefix:
  "startsWith u p \<Longrightarrow> replaceFirst p r u = r @ drop (length p) u"
  by (cases u) (auto simp: startsWith_def)

lemma strip_cases:
  "stripTrailingSlash x = x \<and> (x = [] \<or> last x \<noteq> CHR ''/'') \<or>
   x = stripTrailingSlash x @ ''/''"
  by (auto simp: stripTrailingSlash_def) (metis append_butlast_last_id)

lemma startsWith_strip:
  "startsWith (stripTrailingSlash x) p \<Longrightarrow> startsWith x p"
  using strip_cases [of x]
  by (auto simp: startsWith_def)
     (metis take_all_iff take_append nle_le append_Nil2 take0 diff_is_0_eq)

lemma startsWith_take: "length p = n \<Longrightarrow> startsWith s p = (take n s = p)"
  by (simp add: startsWith_def)

lemma length_libsql: "length ''libsql://'' = 9"
  by simp

lemma startsWith_libsql: "startsWith s ''libsql://'' = (take 9 s = ''libsql://'')"
  by (rule startsWith_take [OF length_libsql])

lemma startsWith_Cons: "startsWith (c # r) (d # p) = (c = d \<and> startsWith r p)"
  by (simp add: startsWith_def)

lemma v_not_in_libsql: "CHR ''v'' \<notin> set ''libsql://''"
  by simp

text \<open>
  Appending the suffix cannot complete the scheme: the scheme would have to end inside
  the suffix, whose second character \<open>v\<close> the scheme does not have, or exactly one
  character into it, and then the slash before it would have been stripped.
\<close>

lemma appended_not_libsql:
  assumes "\<not> startsWith x ''libsql://''"
  shows "\<not> startsWith (stripTrailingSlash x @ ''/v2/pipeline'') ''libsql://''"
proof
  define s where "s = stripTrailingSlash x"
  define sfx where "sfx = ''/v2/pipeline''"
  define lib where "lib = ''libsql://''"
  have len: "length lib = 9" by (simp add: lib_def)
  assume "startsWith (stripTrailingSlash x @ ''/v2/pipeline'') ''libsql://''"
  then have tk: "take 9 (s @ sfx) = lib"
    unfolding startsWith_libsql s_def sfx_def lib_def .
  consider "9 \<le> length s" | "length s = 8" | "length s \<le> 7" by linarith
  then show False
  proof cases
    case 1
    with tk have "take 9 s = lib" by simp
    then have "startsWith s ''libsql://''" by (simp only: startsWith_libsql lib_def)
    then show False using assms startsWith_strip unfolding s_def by blast
  next
    case 2
    have "s = take 8 (take 9 (s @ sfx))" using 2 by simp
    also have "\<dots> = take 8 lib" by (simp only: tk)
    finally have s: "s = ''libsql:/''" by (simp add: lib_def)
    from strip_cases [of x] show False
    proof
      assume "stripTrailingSlash x = x \<and> (x = [] \<or> last x \<noteq> CHR ''/'')"
      with s show False by (auto simp: s_def)
    next
      assume "x = stripTrailingSlash x @ ''/''"
      with s have "x = ''libsql://''" by (simp add: s_def)
      with assms show False by (simp add: startsWith_libsql)
    qed
  next
    case 3
    have "take 9 (s @ sfx) ! (length s + 1) = (s @ sfx) ! (length s + 1)"
      using 3 by (intro nth_take) simp
    also have "\<dots> = sfx ! 1" by (simp add: nth_append)
    also have "\<dots> = CHR ''v''" by (simp add: sfx_def)
    finally have "lib ! (length s + 1) = CHR ''v''" by (simp only: tk)
    moreover have "lib ! (length s + 1) \<in> set lib"
      using 3 len by (intro nth_mem) simp
    ultimately show False using v_not_in_libsql by (simp add: lib_def)
  qed
qed

lemma endsWith_append: "endsWith (s @ p) p"
  by (simp add: endsWith_def)

lemma normalize_not_libsql: "\<not> startsWith (normalizeTursoUrl u) ''libsql://''"
proof -
  define n where
    "n = (if startsWith u ''libsql://'' then replaceFirst ''libsql://'' ''https://'' u else u)"
  have n: "\<not> startsWith n ''libsql://''"
  proof (cases "startsWith u ''libsql://''")
    case True
    then have "n = ''https://'' @ drop (length ''libsql://'') u"
      by (simp only: n_def replaceFirst_prefix if_True)
    then show ?thesis by (simp add: startsWith_Cons)
  next
    case False
    then show ?thesis by (simp add: n_def)
  qed
  have "normalizeTursoUrl u =
      (if \<not> endsWith n ''/v2/pipeline'' then stripTrailingSlash n @ ''/v2/pipeline'' else n)"
    by (simp add: normalizeTursoUrl_def n_def Let_def)
  then show ?thesis using n appended_not_libsql [OF n] by simp
qed

lemma normalize_ends: "endsWith (normalizeTursoUrl u) ''/v2/pipeline''"
  by (simp add: normalizeTursoUrl_def Let_def endsWith_append)

lemma normalize_fixed:
  "\<not> startsWith n ''libsql://'' \<Longrightarrow> endsWith n ''/v2/pipeline'' \<Longrightarrow>
   normalizeTursoUrl n = n"
  by (simp add: normalizeTursoUrl_def)

lemma normalize_example:
  "normalizeTursoUrl ''libsql://db.example.io/'' = ''https://db.example.io/v2/pipeline''"
  by (simp add: normalizeTursoUrl_def startsWith_libsql endsWith_def stripTrailingSlash_def)

text \<open>
  Claim C10. \<open>normalizeTursoUrl\<close> is idempotent: for every string \<open>u\<close>, normalising the
  normalised URL gives the normalised URL again, because one application already yields
  a string that does not start with \<open>libsql://\<close> and that ends with \<open>/v2/pipeline\<close>.
\<close>

theorem normalizeTursoUrl_idempotent:
  "normalizeTursoUrl (normalizeTursoUrl u) = normalizeTursoUrl u \<and>
   \<not> startsWith (normalizeTursoUrl u) ''libsql://'' \<and>
   endsWith (normalizeTursoUrl u) ''/v2/pipeline''"
  using normalize_fixed [OF normalize_not_libsql normalize_ends]
    normalize_not_libsql normalize_ends by blast

theorem normalizeTursoUrl_idempotent_witness:
  "normalizeTursoUrl (normalizeTursoUrl ''libsql://db.example.io/'') =
     ''https://db.example.io/v2/pipeline''"
  using normalizeTursoUrl_idempotent [of "''libsql://db.example.io/''"]
  by (simp only: normalize_example)

subsection \<open>The page loop\<close>

lemma tursoExecute_world:
  "tursoExecute e w sql ps = (r, w') \<Longrightarrow>
   r = tursoResult e (length (calls w)) sql ps \<and> w' = w\<lparr>calls := calls w @ [(ps, r)]\<rparr>"
  by (auto simp: tursoExecute_def Let_def)

lemma advance_eq: "advance t rs c = Inr c' \<Longrightarrow> c' = watermarkAfter t c rs"
  by (auto simp: advance_def bindE_def watermarkAfter_def lastCursorOf_def cursorOf_def
      cellAt_def Let_def split: sum.splits if_splits)

lemma truthy_length: "truthy (numOfNat n) = (n \<noteq> 0)"
  by (simp add: numOfNat_def)

lemma wrote_Cons: "wrote ((ps, r) # cs) = (rowsOf r \<noteq> [] \<or> wrote cs)"
  by (simp add: wrote_def)

lemma wrote_Nil: "wrote [] = False"
  by (simp add: wrote_def)

lemma pageStep_effect:
  assumes "pageStep e t f c wa w = (s, w')"
  shows "\<exists>r. calls w' = calls w @ [([c, numOfNat (BATCH_SIZE e)], r)] \<and> dirs w' = dirs w \<and>
           (\<forall>p. p \<noteq> f \<longrightarrow> files w' p = files w p) \<and>
           (rowsOf r = [] \<longrightarrow> files w' = files w) \<and> stepOk e t c wa s r"
proof -
  obtain r w1 where te: "tursoExecute e w (selectSql t) [c, numOfNat (BATCH_SIZE e)] = (r, w1)"
    by (cases "tursoExecute e w (selectSql t) [c, numOfNat (BATCH_SIZE e)]")
  then have w1: "w1 = w\<lparr>calls := calls w @ [([c, numOfNat (BATCH_SIZE e)], r)]\<rparr>"
    by (simp add: tursoExecute_world)
  have "calls w' = calls w @ [([c, numOfNat (BATCH_SIZE e)], r)] \<and> dirs w' = dirs w \<and>
           (\<forall>p. p \<noteq> f \<longrightarrow> files w' p = files w p) \<and>
           (rowsOf r = [] \<longrightarrow> files w' = files w) \<and> stepOk e t c wa s r"
    using assms te w1
    by (auto simp: pageStep_def rowsOf_def stepOk_def appendFileSync_def Let_def truthy_length
        dest: advance_eq split: sum.splits jsval.splits if_splits)
  then show ?thesis by blast
qed

lemma pageLoop_done:
  "\<not> page < MAX_PAGES e \<Longrightarrow> pageLoop e t f page c wa w = (Inr (c, wa), w)"
  by (subst pageLoop.simps) simp

lemma pageLoop_Fail:
  "page < MAX_PAGES e \<Longrightarrow> pageStep e t f c wa w = (Fail err, w1) \<Longrightarrow>
   pageLoop e t f page c wa w = (Inl err, w1)"
  by (subst pageLoop.simps) simp

lemma pageLoop_Stop:
  "page < MAX_PAGES e \<Longrightarrow> pageStep e t f c wa w = (Stop c' wa', w1) \<Longrightarrow>
   pageLoop e t f page c wa w = (Inr (c', wa'), w1)"
  by (subst pageLoop.simps) simp

lemma pageLoop_Next:
  "page < MAX_PAGES e \<Longrightarrow> pageStep e t f c wa w = (Next c', w1) \<Longrightarrow>
   pageLoop e t f page c wa w = pageLoop e t f (page + 1) c' True w1"
  by (subst pageLoop.simps) simp

lemma pageLoop_trace:
  "pageLoop e t f page c wa w = (res, w') \<Longrightarrow>
   \<exists>new. calls w' = calls w @ new \<and> length new \<le> MAX_PAGES e - page \<and> follows e t c new \<and>
     dirs w' = dirs w \<and> (\<forall>p. p \<noteq> f \<longrightarrow> files w' p = files w p) \<and>
     (\<not> wrote new \<longrightarrow> files w' = files w) \<and>
     (\<forall>c' wa'. res = Inr (c', wa') \<longrightarrow>
        c' = finalWatermark t c new \<and> wa' = (wa \<or> wrote new) \<and>
        stopped e (MAX_PAGES e - page) new)"
proof (induction e t f page c wa w arbitrary: res w' rule: pageLoop.induct)
  case (1 e t f page c wa w)
  show ?case
  proof (cases "page < MAX_PAGES e")
    case False
    with "1.prems" have "res = Inr (c, wa)" "w' = w"
      by (simp_all add: pageLoop_done)
    with False show ?thesis
      by (intro exI [of _ "[]"]) (simp add: wrote_Nil stopped_def)
  next
    case True
    obtain s w1 where st: "pageStep e t f c wa w = (s, w1)"
      by (cases "pageStep e t f c wa w")
    from pageStep_effect [OF st] obtain r where
      r: "calls w1 = calls w @ [([c, numOfNat (BATCH_SIZE e)], r)]" "dirs w1 = dirs w"
         "\<forall>p. p \<noteq> f \<longrightarrow> files w1 p = files w p" "rowsOf r = [] \<longrightarrow> files w1 = files w"
         "stepOk e t c wa s r"
      by blast
    let ?one = "[([c, numOfNat (BATCH_SIZE e)], r)]"
    have one: "length ?one \<le> MAX_PAGES e - page" "follows e t c ?one"
      "\<not> wrote ?one \<longrightarrow> files w1 = files w"
      using True r(4) by (simp_all add: wrote_Cons wrote_Nil)
    show ?thesis
    proof (cases s)
      case (Fail err)
      with "1.prems" True st have "res = Inl err" "w' = w1"
        by (simp_all add: pageLoop_Fail)
      then have "calls w' = calls w @ ?one \<and> length ?one \<le> MAX_PAGES e - page \<and>
          follows e t c ?one \<and> dirs w' = dirs w \<and> (\<forall>p. p \<noteq> f \<longrightarrow> files w' p = files w p) \<and>
          (\<not> wrote ?one \<longrightarrow> files w' = files w) \<and>
          (\<forall>c' wa'. res = Inr (c', wa') \<longrightarrow>
             c' = finalWatermark t c ?one \<and> wa' = (wa \<or> wrote ?one) \<and>
             stopped e (MAX_PAGES e - page) ?one)"
        using r(1,2,3) one by simp
      then show ?thesis by (rule exI)
    next
      case (Stop c' wa')
      with "1.prems" True st have res: "res = Inr (c', wa')" "w' = w1"
        by (simp_all add: pageLoop_Stop)
      from r(5) Stop have fin: "c' = finalWatermark t c ?one" "wa' = (wa \<or> wrote ?one)"
        "stopped e (MAX_PAGES e - page) ?one"
        by (simp_all add: stepOk_def wrote_Cons wrote_Nil stopped_def split: if_splits)
      have "calls w' = calls w @ ?one \<and> length ?one \<le> MAX_PAGES e - page \<and>
          follows e t c ?one \<and> dirs w' = dirs w \<and> (\<forall>p. p \<noteq> f \<longrightarrow> files w' p = files w p) \<and>
          (\<not> wrote ?one \<longrightarrow> files w' = files w) \<and>
          (\<forall>c'' wa''. res = Inr (c'', wa'') \<longrightarrow>
             c'' = finalWatermark t c ?one \<and> wa'' = (wa \<or> wrote ?one) \<and>
             stopped e (MAX_PAGES e - page) ?one)"
        using r(1,2,3) one res fin by simp
      then show ?thesis by (rule exI)
    next
      case (Next c')
      with "1.prems" True st have rec: "pageLoop e t f (page + 1) c' True w1 = (res, w')"
        by (simp add: pageLoop_Next)
      from "1.IH" [OF True st [symmetric] Next rec]
      obtain new where new:
        "calls w' = calls w1 @ new" "length new \<le> MAX_PAGES e - (page + 1)"
        "follows e t c' new" "dirs w' = dirs w1" "\<forall>p. p \<noteq> f \<longrightarrow> files w' p = files w1 p"
        "\<not> wrote new \<longrightarrow> files w' = files w1"
        "\<forall>c'' wa'. res = Inr (c'', wa') \<longrightarrow>
           c'' = finalWatermark t c' new \<and> wa' = (True \<or> wrote new) \<and>
           stopped e (MAX_PAGES e - (page + 1)) new"
        by blast
      from r(5) Next have ok: "rowsOf r \<noteq> []" "BATCH_SIZE e \<le> length (rowsOf r)"
        "c' = watermarkAfter t c (rowsOf r)"
        by (simp_all add: stepOk_def)
      let ?new = "([c, numOfNat (BATCH_SIZE e)], r) # new"
      have a: "calls w' = calls w @ ?new" using r(1) new(1) by simp
      have b: "length ?new \<le> MAX_PAGES e - page" using new(2) True by simp
      have c: "follows e t c ?new" using ok new(3) by simp
      have d: "dirs w' = dirs w" using r(2) new(4) by simp
      have e: "\<forall>p. p \<noteq> f \<longrightarrow> files w' p = files w p" using r(3) new(5) by simp
      have f: "\<not> wrote ?new \<longrightarrow> files w' = files w" using ok by (simp add: wrote_Cons)
      have g: "\<forall>c'' wa'. res = Inr (c'', wa') \<longrightarrow>
          c'' = finalWatermark t c ?new \<and> wa' = (wa \<or> wrote ?new) \<and>
          stopped e (MAX_PAGES e - page) ?new"
      proof (intro allI impI)
        fix c'' wa' assume "res = Inr (c'', wa')"
        with new(7) have n: "c'' = finalWatermark t c' new" "wa'"
          "stopped e (MAX_PAGES e - (page + 1)) new" by simp_all
        have "stopped e (MAX_PAGES e - page) ?new"
          using n(3) True new(2) ok by (auto simp: stopped_def)
        then show "c'' = finalWatermark t c ?new \<and> wa' = (wa \<or> wrote ?new) \<and>
          stopped e (MAX_PAGES e - page) ?new"
          using n ok by (simp add: wrote_Cons)
      qed
      from a b c d e f g show ?thesis by blast
    qed
  qed
qed

subsection \<open>One run of \<open>exportTable\<close>\<close>

lemma newCalls_append: "calls w' = calls w @ new \<Longrightarrow> newCalls w w' = new"
  by (simp add: newCalls_def)

lemma setProp_ok: "\<not> nullish u \<Longrightarrow> \<exists>u'. setProp u k v = Inr u'"
  by (cases u) auto

lemma exportTable_unfold:
  "\<not> nullish cursors \<Longrightarrow>
   exportTable e t cursors w =
     (case pageLoop e t (outFileOf e t) 0 (initialCursor e t cursors) False
             (if existsSync w (outFileOf e t) then unlinkSync w (outFileOf e t) else w) of
        (Inl err, w1) \<Rightarrow> (Inl err, w1)
      | (Inr (cursor', wroteAny), w1) \<Rightarrow>
          if wroteAny
          then (case setProp cursors (name t) cursor' of
                  Inl err \<Rightarrow> (Inl err, w1)
                | Inr cursors' \<Rightarrow> (Inr cursors', w1))
          else (Inr cursors, w1))"
  by (simp add: exportTable_def getProp_def Let_def initialCursor_def)

lemma exportTable_nullish:
  "nullish cursors \<Longrightarrow> exportTable e t cursors w = (Inl TypeError, w)"
  by (simp add: exportTable_def getProp_def)

lemma exportTable_effect:
  assumes "exportTable e t cursors w = (res, w')" "\<not> nullish cursors"
  shows "\<exists>new. calls w' = calls w @ new \<and> length new \<le> MAX_PAGES e \<and>
           follows e t (initialCursor e t cursors) new \<and> dirs w' = dirs w \<and>
           (\<forall>p. p \<noteq> outFileOf e t \<longrightarrow> files w' p = files w p) \<and>
           (\<not> wrote new \<longrightarrow> files w' = (files w)(outFileOf e t := None)) \<and>
           (\<forall>cursors'. res = Inr cursors' \<longrightarrow>
              stopped e (MAX_PAGES e) new \<and>
              (if wrote new
               then setProp cursors (name t) (finalWatermark t (initialCursor e t cursors) new)
                      = Inr cursors'
               else cursors' = cursors))"
proof -
  let ?c0 = "initialCursor e t cursors"
  let ?f = "outFileOf e t"
  let ?w0 = "if existsSync w ?f then unlinkSync w ?f else w"
  obtain r w1 where loop: "pageLoop e t ?f 0 ?c0 False ?w0 = (r, w1)"
    by (cases "pageLoop e t ?f 0 ?c0 False ?w0")
  have w0: "calls ?w0 = calls w" "dirs ?w0 = dirs w" "files ?w0 = (files w)(?f := None)"
    by (auto simp: existsSync_def unlinkSync_def)
  from pageLoop_trace [OF loop] obtain new where new:
    "calls w1 = calls ?w0 @ new" "length new \<le> MAX_PAGES e - 0" "follows e t ?c0 new"
    "dirs w1 = dirs ?w0" "\<forall>p. p \<noteq> ?f \<longrightarrow> files w1 p = files ?w0 p"
    "\<not> wrote new \<longrightarrow> files w1 = files ?w0"
    "\<forall>c' wa'. r = Inr (c', wa') \<longrightarrow>
        c' = finalWatermark t ?c0 new \<and> wa' = (False \<or> wrote new) \<and>
        stopped e (MAX_PAGES e - 0) new"
    by blast
  have gp: "getProp cursors (name t) = Inr (readProp cursors (name t))"
    using assms(2) by (simp add: getProp_def)
  have run: "(res, w') =
     (case r of Inl err \<Rightarrow> (Inl err, w1)
      | Inr (cursor', wroteAny) \<Rightarrow>
          if wroteAny
          then (case setProp cursors (name t) cursor' of
                  Inl err \<Rightarrow> (Inl err, w1) | Inr cursors' \<Rightarrow> (Inr cursors', w1))
          else (Inr cursors, w1))"
    using assms(1) by (simp add: exportTable_unfold [OF assms(2)] loop)
  have w': "w' = w1" using run by (auto split: sum.splits prod.splits if_splits)
  have fin: "\<forall>cursors'. res = Inr cursors' \<longrightarrow>
              stopped e (MAX_PAGES e) new \<and>
              (if wrote new then setProp cursors (name t) (finalWatermark t ?c0 new) = Inr cursors'
               else cursors' = cursors)"
    using run new(7) by (auto split: sum.splits prod.splits if_splits)
  show ?thesis
    using new(1-6) w0 w' fin
    by (intro exI [of _ new]) simp
qed

lemma exportTable_trace:
  assumes "exportTable e t cursors w = (res, w')"
  shows "follows e t (initialCursor e t cursors) (newCalls w w') \<and>
         length (newCalls w w') \<le> MAX_PAGES e \<and>
         (\<forall>cursors'. res = Inr cursors' \<longrightarrow>
            stopped e (MAX_PAGES e) (newCalls w w') \<and>
            (if wrote (newCalls w w')
             then setProp cursors (name t)
                    (finalWatermark t (initialCursor e t cursors) (newCalls w w')) = Inr cursors'
             else cursors' = cursors))"
proof (cases "nullish cursors")
  case True
  with assms have "res = Inl TypeError" "w' = w" by (simp_all add: exportTable_nullish)
  then show ?thesis by (simp add: newCalls_def)
next
  case False
  from exportTable_effect [OF assms False] obtain new where new:
    "calls w' = calls w @ new" "length new \<le> MAX_PAGES e"
    "follows e t (initialCursor e t cursors) new"
    "\<forall>cursors'. res = Inr cursors' \<longrightarrow> stopped e (MAX_PAGES e) new \<and>
        (if wrote new
         then setProp cursors (name t) (finalWatermark t (initialCursor e t cursors) new)
                = Inr cursors'
         else cursors' = cursors)"
    by blast
  have "newCalls w w' = new" using new(1) by (rule newCalls_append)
  with new(2,3,4) show ?thesis by simp
qed

lemma watermarkAfter_truthy:
  "truthy (lastCursorOf t rs) \<Longrightarrow> watermarkAfter t c rs = lastCursorOf t rs"
  by (simp add: watermarkAfter_def)

lemma watermarkAfter_falsy:
  "\<not> truthy (lastCursorOf t rs) \<Longrightarrow> watermarkAfter t c rs = c"
  by (simp add: watermarkAfter_def)

lemma falsy_iff:
  "(\<not> truthy v) = (v \<in> {JUndefined, JNull, JBool False, JNum NaN, JNum (Fin 0), JStr []})"
  by (cases v) auto

lemma lastCursorOf_last:
  "rs \<noteq> [] \<Longrightarrow> lastCursorOf t rs = cursorOf t (last rs)"
  by (simp add: lastCursorOf_def cellAt_def last_conv_nth)

lemma follows_stuck:
  "follows e t c cs \<Longrightarrow> \<forall>(ps, r) \<in> set cs. \<not> truthy (lastCursorOf t (rowsOf r)) \<Longrightarrow>
   (\<forall>(ps, r) \<in> set cs. ps = [c, numOfNat (BATCH_SIZE e)]) \<and> finalWatermark t c cs = c"
proof (induction cs arbitrary: c)
  case Nil
  then show ?case by simp
next
  case (Cons x cs)
  obtain ps r where x: "x = (ps, r)" by (cases x)
  from Cons.prems(2) x have f: "\<not> truthy (lastCursorOf t (rowsOf r))" by simp
  then have same: "watermarkAfter t c (rowsOf r) = c" by (rule watermarkAfter_falsy)
  from Cons.prems(1) x have ps: "ps = [c, numOfNat (BATCH_SIZE e)]" by simp
  have "follows e t c cs"
  proof (cases cs)
    case Nil
    then show ?thesis by simp
  next
    case (Cons y ys)
    with Cons.prems(1) x same show ?thesis by simp
  qed
  from Cons.IH [OF this] Cons.prems(2) x ps same show ?case by simp
qed

lemma follows_forward:
  assumes trans: "\<And>a b c. below a b \<Longrightarrow> below b c \<Longrightarrow> below a c"
  shows "follows e t c cs \<Longrightarrow>
   \<forall>(ps, r) \<in> set cs. \<forall>row \<in> set (rowsOf r). below (hd ps) (cursorOf t row) \<Longrightarrow>
   (finalWatermark t c cs = c \<or> below c (finalWatermark t c cs)) \<and>
   (\<forall>(ps, r) \<in> set cs. hd ps = c \<or> below c (hd ps))"
proof (induction cs arbitrary: c)
  case Nil
  then show ?case by simp
next
  case (Cons x cs)
  obtain ps r where x: "x = (ps, r)" by (cases x)
  from Cons.prems(1) x have ps: "ps = [c, numOfNat (BATCH_SIZE e)]" by simp
  define c1 where "c1 = (if rowsOf r = [] then c else watermarkAfter t c (rowsOf r))"
  have step: "c1 = c \<or> below c c1"
  proof (cases "rowsOf r = [] \<or> \<not> truthy (lastCursorOf t (rowsOf r))")
    case True
    then show ?thesis by (auto simp: c1_def watermarkAfter_def)
  next
    case False
    then have ne: "rowsOf r \<noteq> []" and "truthy (lastCursorOf t (rowsOf r))" by simp_all
    then have "c1 = cursorOf t (last (rowsOf r))"
      by (simp add: c1_def watermarkAfter_def lastCursorOf_last)
    moreover have "below (hd ps) (cursorOf t (last (rowsOf r)))"
      using Cons.prems(2) x ne by (auto dest: last_in_set)
    ultimately show ?thesis using ps by simp
  qed
  have fol: "follows e t c1 cs"
  proof (cases cs)
    case Nil
    then show ?thesis by simp
  next
    case (Cons y ys)
    with Cons.prems(1) x show ?thesis by (simp add: c1_def)
  qed
  have rest: "\<forall>(ps, r) \<in> set cs. \<forall>row \<in> set (rowsOf r). below (hd ps) (cursorOf t row)"
    using Cons.prems(2) by simp
  from Cons.IH [OF fol rest] have ih:
    "finalWatermark t c1 cs = c1 \<or> below c1 (finalWatermark t c1 cs)"
    "\<forall>(ps, r) \<in> set cs. hd ps = c1 \<or> below c1 (hd ps)"
    by simp_all
  have fw: "finalWatermark t c (x # cs) = finalWatermark t c1 cs"
    by (simp add: x c1_def)
  have a: "finalWatermark t c (x # cs) = c \<or> below c (finalWatermark t c (x # cs))"
    using step ih(1) trans unfolding fw by metis
  have b: "\<forall>(ps, r) \<in> set (x # cs). hd ps = c \<or> below c (hd ps)"
  proof -
    have "\<forall>(ps, r) \<in> set cs. hd ps = c \<or> below c (hd ps)"
      using ih(2) step trans by (metis (mono_tags, lifting) case_prodD case_prodI2)
    then show ?thesis using ps x by simp
  qed
  from a b show ?case by simp
qed

subsection \<open>The output record\<close>

lemma getIndex_cellAt: "\<not> nullish row \<Longrightarrow> getIndex row i = Inr (cellAt row i)"
  by (cases row) (simp_all add: cellAt_def)

lemma update_fresh: "k \<notin> fst ` set m \<Longrightarrow> AList.update k v m = m @ [(k, v)]"
  by (induction m) auto

lemma assignColumns_eq:
  "\<not> nullish row \<Longrightarrow> distinct cs \<Longrightarrow> set cs \<inter> fst ` set m = {} \<Longrightarrow>
   assignColumns cs i row m =
     Inr (m @ zip cs (map (\<lambda>j. parseCell (cellAt row j)) [i..<i + length cs]))"
proof (induction cs arbitrary: i m)
  case Nil
  then show ?case by simp
next
  case (Cons c cs)
  let ?f = "\<lambda>j. parseCell (cellAt row j)"
  let ?m = "m @ [(c, ?f i)]"
  have up: "AList.update c (?f i) m = ?m"
    using Cons.prems(3) by (intro update_fresh) auto
  have u: "[i..<i + length (c # cs)] = i # [Suc i..<Suc i + length cs]"
    by (subst upt_rec) simp
  have "assignColumns (c # cs) i row m = assignColumns cs (Suc i) row ?m"
    using Cons.prems(1) by (simp add: getIndex_cellAt up)
  also have "\<dots> = Inr (?m @ zip cs (map ?f [Suc i..<Suc i + length cs]))"
    using Cons.prems by (intro Cons.IH) auto
  also have "?m @ zip cs (map ?f [Suc i..<Suc i + length cs]) =
      m @ zip (c # cs) (map ?f [i..<i + length (c # cs)])"
    unfolding u by simp
  finally show ?case .
qed

lemma assignColumns_nullish:
  "nullish row \<Longrightarrow> cs \<noteq> [] \<Longrightarrow> assignColumns cs i row m = Inl TypeError"
  by (cases cs; cases row) simp_all

lemma ensureNumber_not_NaN: "ensureNumber e v (Fin 0) = Inr n \<Longrightarrow> n \<noteq> NaN"
  by (auto simp: ensureNumber_def bindE_def split: if_splits sum.splits)

lemma ensureNumber_num: "n \<noteq> NaN \<Longrightarrow> ensureNumber e (JNum n) (Fin 0) = Inr n"
  by (simp add: ensureNumber_def bindE_def)

lemma own_update: "own (AList.update k v m) k' = (if k' = k then v else own m k')"
  by (simp add: own_def update_conv')

lemma coerceNumeric_eq:
  "coerceNumeric e ks m = Inr m' \<Longrightarrow>
   map fst m' = map fst m \<and>
   (\<forall>k. own m' k =
      (if k \<in> set ks \<and> k \<in> fst ` set m then coerceValue e (own m k) else own m k))"
proof (induction ks arbitrary: m)
  case Nil
  then show ?case by simp
next
  case (Cons k ks)
  show ?case
  proof (cases "k \<in> fst ` set m")
    case False
    with Cons.prems have "coerceNumeric e ks m = Inr m'" by simp
    from Cons.IH [OF this] False show ?thesis by auto
  next
    case True
    with Cons.prems obtain n where n: "ensureNumber e (own m k) (Fin 0) = Inr n"
      and rest: "coerceNumeric e ks (AList.update k (JNum n) m) = Inr m'"
      by (auto split: sum.splits)
    have nn: "n \<noteq> NaN" using n by (rule ensureNumber_not_NaN)
    have keys: "map fst (AList.update k (JNum n) m) = map fst m"
      using True by (simp add: update_keys)
    then have keys': "fst ` set (AList.update k (JNum n) m) = fst ` set m"
      by (metis list.set_map)
    have cv: "coerceValue e (own m k) = JNum n" by (simp add: coerceValue_def n)
    have cv2: "coerceValue e (JNum n) = JNum n"
      by (simp add: coerceValue_def ensureNumber_num [OF nn])
    from Cons.IH [OF rest] show ?thesis
      using True keys keys' cv cv2 by (auto simp: own_update)
  qed
qed

lemma own_zip:
  "distinct cs \<Longrightarrow> length vs = length cs \<Longrightarrow> j < length cs \<Longrightarrow> own (zip cs vs) (cs ! j) = vs ! j"
  by (simp add: own_def map_of_zip_nth)

lemma mapRecord_fields:
  assumes "mapRecord e t row = Inr m" "\<not> nullish row" "distinct (columns t)"
  shows "map fst m = columns t \<and>
         (\<forall>j < length (columns t).
            own m (columns t ! j) =
              (if columns t ! j \<in> set (numericColumns t)
               then coerceValue e (parseCell (cellAt row j))
               else parseCell (cellAt row j)))"
proof -
  let ?m0 = "zip (columns t) (map (\<lambda>j. parseCell (cellAt row j)) [0..<0 + length (columns t)])"
  have a: "assignColumns (columns t) 0 row [] = Inr ([] @ ?m0)"
    using assms(2,3) by (intro assignColumns_eq) simp_all
  with assms(1) have c: "coerceNumeric e (numericColumns t) ?m0 = Inr m"
    by (simp add: mapRecord_def bindE_def)
  have k0: "map fst ?m0 = columns t" by simp
  then have k0': "fst ` set ?m0 = set (columns t)" by (metis list.set_map)
  have v0: "\<forall>j < length (columns t). own ?m0 (columns t ! j) = parseCell (cellAt row j)"
    using assms(3) by (simp add: own_zip)
  from coerceNumeric_eq [OF c] k0 k0' v0 show ?thesis by auto
qed

lemma mapE_ok: "(\<And>x. x \<in> set xs \<Longrightarrow> \<exists>y. f x = Inr y) \<Longrightarrow> \<exists>ys. mapE f xs = Inr ys"
proof (induction xs)
  case Nil
  then show ?case by simp
next
  case (Cons x xs)
  from Cons.prems obtain y where "f x = Inr y" by auto
  moreover from Cons obtain ys where "mapE f xs = Inr ys" by auto
  ultimately show ?case by simp
qed

lemma ToString_safe: "safe v \<Longrightarrow> \<exists>s. ToString e v = Inr s"
proof (induction v)
  case (JArr xs)
  have "\<exists>ss. mapE (\<lambda>x. if nullish x then Inr [] else ToString e x) xs = Inr ss"
  proof (rule mapE_ok)
    fix x assume "x \<in> set xs"
    with JArr show "\<exists>y. (if nullish x then Inr [] else ToString e x) = Inr y"
      by (auto simp: list_all_iff)
  qed
  then show ?case by auto
qed (auto)

lemma ToNumber_safe: "safe v \<Longrightarrow> \<exists>n. ToNumber e v = Inr n"
  using ToString_safe [of v e] by (cases v) auto

lemma ensureNumber_safe: "safe v \<Longrightarrow> \<exists>n. ensureNumber e v (Fin 0) = Inr n \<and> n \<noteq> NaN"
  using ToNumber_safe [of v e] by (auto simp: ensureNumber_def bindE_def)

lemma wrapArg_safe: "safe v \<Longrightarrow> \<exists>a. wrapArg e v = Inr a"
  using ToString_safe [of v e] by (auto simp: wrapArg_def bindE_def)

lemma own_in: "own kvs k = JUndefined \<or> own kvs k \<in> snd ` set kvs"
  by (auto simp: own_def split: option.splits dest: map_of_SomeD intro: rev_image_eqI)

lemma safe_own: "safe (JObj kvs) \<Longrightarrow> safe (own kvs k)"
  using own_in [of kvs k] by (auto simp: list_all_iff)

lemma parseCell_safe: "safe cell \<Longrightarrow> safe (parseCell cell)"
  by (cases cell) (auto simp: parseCell_def dest: safe_own simp del: safe.simps(1))

lemma own_has: "k \<in> fst ` set kvs \<Longrightarrow> own kvs k \<in> snd ` set kvs"
  by (auto simp: own_def split: option.splits dest: map_of_SomeD intro: rev_image_eqI
      simp: map_of_eq_None_iff)

lemma parseCell_isJson: "isJson cell \<Longrightarrow> isJson (parseCell cell)"
proof (cases cell)
  case (JObj kvs)
  assume j: "isJson cell"
  show ?thesis
  proof (cases "''value'' \<in> fst ` set kvs")
    case True
    from own_has [OF True] j JObj have "isJson (own kvs ''value'')"
      by (auto simp: list_all_iff)
    with True JObj show ?thesis by (simp add: parseCell_def)
  next
    case False
    with JObj j show ?thesis by (simp add: parseCell_def)
  qed
qed (simp_all add: parseCell_def)

lemma parseCell_cases:
  "parseCell (JObj kvs) = (if ''value'' \<in> fst ` set kvs then own kvs ''value'' else JObj kvs)"
  "parseCell (JArr xs) = JArr xs" "parseCell (JStr s) = JStr s" "parseCell (JNum n) = JNum n"
  "parseCell (JBool b) = JBool b" "parseCell JNull = JNull" "parseCell JUndefined = JUndefined"
  by (simp_all add: parseCell_def)

lemma coerceNumeric_ok:
  "(\<And>k. safe (own m k)) \<Longrightarrow> \<exists>m'. coerceNumeric e ks m = Inr m'"
proof (induction ks arbitrary: m)
  case Nil
  then show ?case by simp
next
  case (Cons k ks)
  from ensureNumber_safe [OF Cons.prems] obtain n where
    n: "ensureNumber e (own m k) (Fin 0) = Inr n" by blast
  have "\<And>k'. safe (own (AList.update k (JNum n) m) k')"
    using Cons.prems by (simp add: own_update)
  from Cons.IH [OF this] Cons.IH [OF Cons.prems] n show ?case by simp
qed

lemma cellAt_array:
  "cellAt (JArr cells) j = (if j < length cells then cells ! j else JUndefined)"
  by (simp add: cellAt_def)

lemma mapRecord_ok:
  assumes "list_all safe cells" "distinct (columns t)"
  shows "\<exists>m. mapRecord e t (JArr cells) = Inr m"
proof -
  let ?f = "\<lambda>j. parseCell (cellAt (JArr cells) j)"
  let ?m0 = "zip (columns t) (map ?f [0..<0 + length (columns t)])"
  have a: "assignColumns (columns t) 0 (JArr cells) [] = Inr ([] @ ?m0)"
    using assms(2) by (intro assignColumns_eq) simp_all
  have sf: "\<And>j. safe (?f j)"
    using assms(1) by (intro parseCell_safe) (simp add: cellAt_array list_all_length)
  have "\<And>k. safe (own ?m0 k)"
  proof -
    fix k
    from own_in [of ?m0 k] show "safe (own ?m0 k)"
    proof
      assume "own ?m0 k = JUndefined" then show ?thesis by simp
    next
      assume "own ?m0 k \<in> snd ` set ?m0"
      then obtain kv where "kv \<in> set ?m0" "own ?m0 k = snd kv" by auto
      then have "own ?m0 k \<in> set (map ?f [0..<0 + length (columns t)])"
        by (metis set_zip_rightD prod.collapse)
      with sf show ?thesis by auto
    qed
  qed
  from coerceNumeric_ok [OF this] obtain m' where
    "coerceNumeric e (numericColumns t) ?m0 = Inr m'" by blast
  with a show ?thesis by (simp add: mapRecord_def bindE_def)
qed

lemma mapRow_ok:
  "list_all safe cells \<Longrightarrow> distinct (columns t) \<Longrightarrow> \<exists>s. mapRow e t (JArr cells) = Inr s"
  using mapRecord_ok [of cells t e] by (auto simp: mapRow_def bindE_def)

subsection \<open>Paging through a table\<close>

lemma advance_ok:
  assumes "rs \<noteq> []" "goodRow (last rs)"
  shows "advance t rs c = Inr (watermarkAfter t c rs)"
proof -
  from assms(2) obtain cells where cells: "last rs = JArr cells" by (cases "last rs") auto
  have "getIndex (JArr rs) (length rs - 1) = Inr (last rs)"
    using assms(1) by (simp add: last_conv_nth)
  then obtain c' where "advance t rs c = Inr c'"
    by (simp add: advance_def bindE_def cells Let_def)
  then show ?thesis using advance_eq by simp
qed

lemma pageStep_rows:
  assumes res: "tursoResult e (length (calls w1)) (selectSql t) [c, numOfNat (BATCH_SIZE e)]
                  = Inr (JArr rs)"
    and good: "list_all goodRow rs" and dist: "distinct (columns t)"
  shows "\<exists>w2. pageStep e t f c wa w1 =
           (if rs = [] then Stop c wa
            else if length rs < BATCH_SIZE e then Stop (watermarkAfter t c rs) True
            else Next (watermarkAfter t c rs), w2)"
proof (cases "rs = []")
  case True
  then show ?thesis using res
    by (simp add: pageStep_def tursoExecute_def Let_def truthy_length)
next
  case False
  have "\<exists>ndjson. mapE (mapRow e t) rs = Inr ndjson"
  proof (rule mapE_ok)
    fix row assume "row \<in> set rs"
    with good have "goodRow row" by (simp add: list_all_iff)
    then obtain cells where "row = JArr cells" "list_all safe cells"
      by (cases row) auto
    with mapRow_ok [OF _ dist] show "\<exists>y. mapRow e t row = Inr y" by blast
  qed
  then obtain ndjson where nd: "mapE (mapRow e t) rs = Inr ndjson" by blast
  have "goodRow (last rs)" using good False by (simp add: list_all_iff)
  from advance_ok [OF False this] have adv: "advance t rs c = Inr (watermarkAfter t c rs)" .
  show ?thesis using False res nd adv
    by (simp add: pageStep_def tursoExecute_def Let_def truthy_length)
qed

lemma safe_watermarkAfter:
  assumes "safe c" "list_all goodRow rs"
  shows "safe (watermarkAfter t c rs)"
proof (cases "rs = []")
  case True
  then show ?thesis using assms(1)
    by (simp add: watermarkAfter_def lastCursorOf_def cursorOf_def cellAt_def parseCell_def)
next
  case False
  then have "goodRow (last rs)" using assms(2) by (simp add: list_all_iff)
  then obtain cells where cells: "last rs = JArr cells" "list_all safe cells"
    by (cases "last rs") auto
  have "safe (cellAt (JArr cells) (length (columns t)))"
    using cells(2) by (simp add: cellAt_array list_all_length)
  then have "safe (lastCursorOf t rs)"
    using False cells(1) by (simp add: lastCursorOf_last cursorOf_def parseCell_safe)
  then show ?thesis using assms(1) by (simp add: watermarkAfter_def)
qed

lemma length_pageOf_full:
  assumes "0 < b" "j < length pending div b"
  shows "length (pageOf b pending j) = b"
proof -
  from assms(2) have "Suc j \<le> length pending div b" by simp
  then have "Suc j * b \<le> (length pending div b) * b" by (rule mult_le_mono1)
  also have "\<dots> \<le> length pending" by simp
  finally have "j * b + b \<le> length pending" by simp
  then show ?thesis by (simp add: pageOf_def)
qed

lemma length_pageOf_last:
  assumes "0 < b"
  shows "length (pageOf b pending (length pending div b)) < b"
proof -
  have "length pending - (length pending div b) * b = length pending mod b"
    by (simp add: minus_div_mult_eq_mod)
  then show ?thesis using assms by (simp add: pageOf_def)
qed

lemma goodRow_pageOf: "list_all goodRow pending \<Longrightarrow> list_all goodRow (pageOf b pending j)"
  by (auto simp: pageOf_def list_all_iff dest: in_set_takeD in_set_dropD)

lemma pageLoop_paged:
  assumes b: "0 < BATCH_SIZE e" and good: "list_all goodRow pending"
    and dist: "distinct (columns t)"
    and srv: "\<forall>j c. safe c \<longrightarrow>
       tursoResult e (base + j) (selectSql t) [c, numOfNat (BATCH_SIZE e)]
         = Inr (JArr (pageOf (BATCH_SIZE e) pending j))"
  shows "safe c \<Longrightarrow> length (calls w1) = base + page \<Longrightarrow>
     page \<le> length pending div BATCH_SIZE e \<Longrightarrow> page \<le> MAX_PAGES e \<Longrightarrow>
     \<exists>c' wa' w' new. pageLoop e t f page c wa w1 = (Inr (c', wa'), w') \<and>
        calls w' = calls w1 @ new \<and>
        map (\<lambda>(ps, r). rowsOf r) new =
          map (pageOf (BATCH_SIZE e) pending)
            [page..<min (MAX_PAGES e) (length pending div BATCH_SIZE e + 1)]"
proof (induction "MAX_PAGES e - page" arbitrary: page c wa w1)
  case 0
  then have "\<not> page < MAX_PAGES e" by simp
  from pageLoop_done [OF this] 0 show ?case by simp
next
  case (Suc d)
  let ?B = "BATCH_SIZE e"
  let ?n = "min (MAX_PAGES e) (length pending div ?B + 1)"
  let ?rs = "pageOf ?B pending page"
  from Suc.hyps(2) have lt: "page < MAX_PAGES e" by simp
  have res: "tursoResult e (length (calls w1)) (selectSql t) [c, numOfNat ?B] = Inr (JArr ?rs)"
    using srv Suc.prems(1,2) by simp
  have grs: "list_all goodRow ?rs" using good by (rule goodRow_pageOf)
  from pageStep_rows [OF res grs dist] obtain w2 where
    st: "pageStep e t f c wa w1 =
           (if ?rs = [] then Stop c wa
            else if length ?rs < ?B then Stop (watermarkAfter t c ?rs) True
            else Next (watermarkAfter t c ?rs), w2)"
    by blast
  from pageStep_effect [OF st] obtain r where
    r: "calls w2 = calls w1 @ [([c, numOfNat ?B], r)]" by blast
  have rr: "r = Inr (JArr ?rs)"
  proof -
    obtain s1 w1' where s1: "pageStep e t f c wa w1 = (s1, w1')"
      by (cases "pageStep e t f c wa w1")
    have "tursoExecute e w1 (selectSql t) [c, numOfNat ?B] =
        (Inr (JArr ?rs), w1\<lparr>calls := calls w1 @ [([c, numOfNat ?B], Inr (JArr ?rs))]\<rparr>)"
      by (simp add: tursoExecute_def Let_def res)
    then have "calls w1' = calls w1 @ [([c, numOfNat ?B], Inr (JArr ?rs))]"
      using s1 by (auto simp: pageStep_def appendFileSync_def Let_def
          split: if_splits sum.splits jsval.splits)
    with r s1 st show ?thesis by simp
  qed
  have rows: "rowsOf r = ?rs" by (simp add: rr rowsOf_def)
  show ?case
  proof (cases "page < length pending div ?B")
    case True
    then have full: "length ?rs = ?B" using b by (intro length_pageOf_full)
    with b have ne: "?rs \<noteq> []" by auto
    from st full ne have nx: "pageStep e t f c wa w1 = (Next (watermarkAfter t c ?rs), w2)"
      by simp
    have loop: "pageLoop e t f page c wa w1 =
        pageLoop e t f (page + 1) (watermarkAfter t c ?rs) True w2"
      using lt nx by (rule pageLoop_Next)
    have "d = MAX_PAGES e - (page + 1)" using Suc.hyps(2) by simp
    moreover have "safe (watermarkAfter t c ?rs)"
      using Suc.prems(1) grs by (rule safe_watermarkAfter)
    moreover have "length (calls w2) = base + (page + 1)" using r Suc.prems(2) by simp
    moreover have "page + 1 \<le> length pending div ?B" using True by simp
    moreover have "page + 1 \<le> MAX_PAGES e" using lt by simp
    ultimately obtain c' wa' w' new where
      ih: "pageLoop e t f (page + 1) (watermarkAfter t c ?rs) True w2 = (Inr (c', wa'), w')"
        "calls w' = calls w2 @ new"
        "map (\<lambda>(ps, r). rowsOf r) new = map (pageOf ?B pending) [page + 1..<?n]"
      using Suc.hyps(1) by blast
    have pn: "page < ?n" using lt True by simp
    have "[page..<?n] = page # [page + 1..<?n]" using pn by (simp add: upt_conv_Cons)
    then have "map (\<lambda>(ps, r). rowsOf r) (([c, numOfNat ?B], r) # new) =
        map (pageOf ?B pending) [page..<?n]"
      using ih(3) rows by simp
    moreover have "calls w' = calls w1 @ (([c, numOfNat ?B], r) # new)"
      using ih(2) r by simp
    ultimately show ?thesis using loop ih(1) by metis
  next
    case False
    with Suc.prems(3) have eq: "page = length pending div ?B" by simp
    then have short: "length ?rs < ?B" using b length_pageOf_last by simp
    then obtain c' wa' where sp: "pageStep e t f c wa w1 = (Stop c' wa', w2)"
      using st by (cases "?rs = []") auto
    have loop: "pageLoop e t f page c wa w1 = (Inr (c', wa'), w2)"
      using lt sp by (rule pageLoop_Stop)
    have "?n = page + 1" using lt eq by simp
    then have "[page..<?n] = [page]" by simp
    then have "map (\<lambda>(ps, r). rowsOf r) [([c, numOfNat ?B], r)] =
        map (pageOf ?B pending) [page..<?n]"
      using rows by simp
    with loop r show ?thesis by metis
  qed
qed

subsection \<open>Numeric coercion and the layout of a record\<close>

lemma coerceNumeric_coerced:
  "coerceNumeric e ks m = Inr m' \<Longrightarrow> k \<in> set ks \<Longrightarrow> k \<in> fst ` set m \<Longrightarrow>
   \<exists>n. ensureNumber e (own m k) (Fin 0) = Inr n"
proof (induction ks arbitrary: m)
  case Nil
  then show ?case by simp
next
  case (Cons k' ks)
  show ?case
  proof (cases "k' \<in> fst ` set m")
    case False
    with Cons.prems have "coerceNumeric e ks m = Inr m'" "k \<in> set ks" by auto
    from Cons.IH [OF this Cons.prems(3)] show ?thesis .
  next
    case True
    with Cons.prems(1) obtain n where n: "ensureNumber e (own m k') (Fin 0) = Inr n"
      and rest: "coerceNumeric e ks (AList.update k' (JNum n) m) = Inr m'"
      by (auto split: sum.splits)
    show ?thesis
    proof (cases "k = k'")
      case True
      with n show ?thesis by simp
    next
      case False
      with Cons.prems(2) have "k \<in> set ks" by simp
      moreover have "k \<in> fst ` set (AList.update k' (JNum n) m)"
        using Cons.prems(3) by (metis list.set_map update_keys True)
      ultimately have "\<exists>n'. ensureNumber e (own (AList.update k' (JNum n) m) k) (Fin 0) = Inr n'"
        using Cons.IH [OF rest] by blast
      with False show ?thesis by (simp add: own_update)
    qed
  qed
qed

lemma mapRecord_numeric:
  assumes "mapRecord e t row = Inr m" "distinct (columns t)" "j < length (columns t)"
    and "columns t ! j \<in> set (numericColumns t)"
  shows "\<exists>n. n \<noteq> NaN \<and> ensureNumber e (parseCell (cellAt row j)) (Fin 0) = Inr n \<and>
             own m (columns t ! j) = JNum n"
proof -
  have ne: "columns t \<noteq> []" using assms(3) by auto
  have nn: "\<not> nullish row"
  proof
    assume "nullish row"
    from assignColumns_nullish [OF this ne] assms(1) show False
      by (simp add: mapRecord_def bindE_def)
  qed
  let ?f = "\<lambda>j. parseCell (cellAt row j)"
  let ?m0 = "zip (columns t) (map ?f [0..<0 + length (columns t)])"
  have a: "assignColumns (columns t) 0 row [] = Inr ([] @ ?m0)"
    using nn assms(2) by (intro assignColumns_eq) simp_all
  with assms(1) have c: "coerceNumeric e (numericColumns t) ?m0 = Inr m"
    by (simp add: mapRecord_def bindE_def)
  have "map fst ?m0 = columns t" by simp
  then have k0: "fst ` set ?m0 = set (columns t)" by (metis list.set_map)
  have v0: "own ?m0 (columns t ! j) = ?f j"
    using assms(2,3) by (simp add: own_zip)
  have "columns t ! j \<in> fst ` set ?m0" using k0 assms(3) by simp
  from coerceNumeric_coerced [OF c assms(4) this] v0 obtain n where
    n: "ensureNumber e (?f j) (Fin 0) = Inr n" by auto
  have "own m (columns t ! j) = coerceValue e (?f j)"
    using mapRecord_fields [OF assms(1) nn assms(2)] assms(3,4) by simp
  with n ensureNumber_not_NaN [OF n] show ?thesis by (simp add: coerceValue_def)
qed

lemma StringToNumber_abc: "StringToNumber ''abc'' = NaN"
  by code_simp

lemma StringToNumber_42: "StringToNumber ''42'' = Fin 42"
  by code_simp

lemma ordinaryTable_distinct: "ordinaryTable t \<Longrightarrow> distinct (columns t)"
  by (simp add: ordinaryTable_def)

lemma TABLES_ordinary: "list_all ordinaryTable TABLES"
  by code_simp

lemma leaderboard_ordinary: "ordinaryTable leaderboard"
  by code_simp

text \<open>
  Claim C3. Numeric coercion: the string \<open>abc\<close>, and any string that is not a numeric
  literal, becomes \<open>0\<close>; the string \<open>42\<close> becomes the number \<open>42\<close>; \<open>null\<close>, \<open>undefined\<close> and
  the empty string become \<open>0\<close>; on a safe value the coercion does not throw and gives a
  number that is not \<open>NaN\<close>; and in the output record of a table with ordinary names, the
  field of a numeric column is that number for the unwrapped cell.
\<close>

theorem numeric_coercion:
  "ensureNumber e (JStr ''abc'') (Fin 0) = Inr (Fin 0) \<and>
   ensureNumber e (JStr ''42'') (Fin 0) = Inr (Fin 42) \<and>
   ensureNumber e JNull (Fin 0) = Inr (Fin 0) \<and>
   ensureNumber e JUndefined (Fin 0) = Inr (Fin 0) \<and>
   ensureNumber e (JStr []) (Fin 0) = Inr (Fin 0) \<and>
   (\<forall>s. StringToNumber s = NaN \<longrightarrow> ensureNumber e (JStr s) (Fin 0) = Inr (Fin 0)) \<and>
   (\<forall>v. safe v \<longrightarrow> (\<exists>n. ensureNumber e v (Fin 0) = Inr n \<and> n \<noteq> NaN)) \<and>
   (\<forall>t row m j.
      ordinaryTable t \<and> mapRecord e t row = Inr m \<and> j < length (columns t) \<and>
      columns t ! j \<in> set (numericColumns t) \<longrightarrow>
      (\<exists>n. n \<noteq> NaN \<and> ensureNumber e (parseCell (cellAt row j)) (Fin 0) = Inr n \<and>
           own m (columns t ! j) = JNum n))"
proof -
  have a: "ensureNumber e (JStr ''abc'') (Fin 0) = Inr (Fin 0)"
    by (simp add: ensureNumber_def bindE_def StringToNumber_abc)
  have b: "ensureNumber e (JStr ''42'') (Fin 0) = Inr (Fin 42)"
    by (simp add: ensureNumber_def bindE_def StringToNumber_42)
  have c: "ensureNumber e JNull (Fin 0) = Inr (Fin 0)"
    "ensureNumber e JUndefined (Fin 0) = Inr (Fin 0)"
    "ensureNumber e (JStr []) (Fin 0) = Inr (Fin 0)"
    by (simp_all add: ensureNumber_def)
  have d: "\<forall>s. StringToNumber s = NaN \<longrightarrow> ensureNumber e (JStr s) (Fin 0) = Inr (Fin 0)"
    by (simp add: ensureNumber_def bindE_def)
  have f: "\<forall>v. safe v \<longrightarrow> (\<exists>n. ensureNumber e v (Fin 0) = Inr n \<and> n \<noteq> NaN)"
    using ensureNumber_safe by blast
  have g: "\<forall>t row m j.
      ordinaryTable t \<and> mapRecord e t row = Inr m \<and> j < length (columns t) \<and>
      columns t ! j \<in> set (numericColumns t) \<longrightarrow>
      (\<exists>n. n \<noteq> NaN \<and> ensureNumber e (parseCell (cellAt row j)) (Fin 0) = Inr n \<and>
           own m (columns t ! j) = JNum n)"
    using mapRecord_numeric ordinaryTable_distinct by blast
  from a b c d f g show ?thesis by blast
qed

lemma example_record:
  "mapRecord exampleEnv leaderboard rowB =
     Inr [(''user_id'', JStr ''u2''), (''display_name'', JStr ''Ben''),
          (''highest_level'', JNum (Fin 0)), (''total_kites_cut'', JNum (Fin 0)),
          (''best_time_seconds'', JNum (Fin 0)),
          (''updated_at'', JStr ''2024-03-02T10:00:00Z'')]"
  by code_simp

lemma leaderboard_columns:
  "columns leaderboard =
     [''user_id'', ''display_name'', ''highest_level'', ''total_kites_cut'',
      ''best_time_seconds'', ''updated_at'']"
  "numericColumns leaderboard = [''highest_level'', ''total_kites_cut'', ''best_time_seconds'']"
  "name leaderboard = ''leaderboard''"
  by (simp_all add: leaderboard_def TABLES_def)

theorem numeric_coercion_witness:
  "ensureNumber exampleEnv (JStr ''abc'') (Fin 0) = Inr (Fin 0) \<and>
   ensureNumber exampleEnv (JStr ''42'') (Fin 0) = Inr (Fin 42) \<and>
   (\<exists>n. n \<noteq> NaN \<and>
        ensureNumber exampleEnv (parseCell (cellAt rowB 2)) (Fin 0) = Inr n \<and>
        JNum (Fin 0) = JNum n)"
proof -
  note nc = numeric_coercion [of exampleEnv]
  from nc have a: "ensureNumber exampleEnv (JStr ''abc'') (Fin 0) = Inr (Fin 0)"
    by (rule conjunct1)
  from nc have b: "ensureNumber exampleEnv (JStr ''42'') (Fin 0) = Inr (Fin 42)"
    by (elim conjE)
  from nc have g: "\<forall>t row m j.
      ordinaryTable t \<and> mapRecord exampleEnv t row = Inr m \<and> j < length (columns t) \<and>
      columns t ! j \<in> set (numericColumns t) \<longrightarrow>
      (\<exists>n. n \<noteq> NaN \<and> ensureNumber exampleEnv (parseCell (cellAt row j)) (Fin 0) = Inr n \<and>
           own m (columns t ! j) = JNum n)"
    by (elim conjE)
  have j: "2 < length (columns leaderboard)"
    "columns leaderboard ! 2 \<in> set (numericColumns leaderboard)"
    by (simp_all add: leaderboard_columns)
  from g [rule_format, OF conjI [OF leaderboard_ordinary conjI [OF example_record conjI [OF j]]]]
  obtain n where n: "n \<noteq> NaN"
    "ensureNumber exampleEnv (parseCell (cellAt rowB 2)) (Fin 0) = Inr n"
    "own [(''user_id'', JStr ''u2''), (''display_name'', JStr ''Ben''),
          (''highest_level'', JNum (Fin 0)), (''total_kites_cut'', JNum (Fin 0)),
          (''best_time_seconds'', JNum (Fin 0)),
          (''updated_at'', JStr ''2024-03-02T10:00:00Z'')] (columns leaderboard ! 2) = JNum n"
    by blast
  have "JNum (Fin 0) = JNum n"
    using n(3) by (simp add: leaderboard_columns own_def)
  with a b n(1,2) show ?thesis by blast
qed

lemma isJson_defined: "isJson v \<Longrightarrow> v \<noteq> JUndefined"
  by auto

lemma mapRecord_prefix:
  assumes "distinct (columns t)" "length (columns t) \<le> length cells"
  shows "mapRecord e t (JArr (take (length (columns t)) cells @ extra)) =
         mapRecord e t (JArr cells)"
proof -
  let ?n = "length (columns t)"
  let ?r = "JArr (take ?n cells @ extra)"
  have eq: "map (\<lambda>j. parseCell (cellAt ?r j)) [0..<0 + ?n] =
            map (\<lambda>j. parseCell (cellAt (JArr cells) j)) [0..<0 + ?n]"
    using assms(2) by (intro map_cong) (auto simp: cellAt_array nth_append)
  have "assignColumns (columns t) 0 ?r [] =
      Inr ([] @ zip (columns t) (map (\<lambda>j. parseCell (cellAt ?r j)) [0..<0 + ?n]))"
    using assms(1) by (intro assignColumns_eq) simp_all
  moreover have "assignColumns (columns t) 0 (JArr cells) [] =
      Inr ([] @ zip (columns t) (map (\<lambda>j. parseCell (cellAt (JArr cells) j)) [0..<0 + ?n]))"
    using assms(1) by (intro assignColumns_eq) simp_all
  ultimately show ?thesis by (simp only: mapRecord_def eq)
qed

text \<open>
  Claim C8. Layout of the output record, for a table whose names are ordinary and a row
  of JSON cells that has a cell for every column: the emitted line is \<open>JSON.stringify\<close> of
  an object whose properties are exactly the columns, in the order of the descriptor;
  each holds the unwrapped cell (for a numeric column: the unwrapped cell coerced to a
  number) and is defined, so that \<open>JSON.stringify\<close> leaves none out; a cell is unwrapped to
  its \<open>value\<close> property when it is an object that has one and is taken as it is
  otherwise; and whatever follows the cells of the columns, the cursor cell first of all,
  has no influence on the line.
\<close>

theorem output_record_layout:
  assumes "ordinaryTable t" and "length (columns t) \<le> length cells"
    and "list_all isJson cells" and "mapRow e t (JArr cells) = Inr line"
  shows "(\<exists>m. mapRecord e t (JArr cells) = Inr m \<and> line = JSON_stringify e (JObj m) \<and>
            map fst m = columns t \<and>
            (\<forall>j < length (columns t).
               own m (columns t ! j) =
                 (if columns t ! j \<in> set (numericColumns t)
                  then coerceValue e (parseCell (cells ! j)) else parseCell (cells ! j)) \<and>
               own m (columns t ! j) \<noteq> JUndefined)) \<and>
         (\<forall>kvs. parseCell (JObj kvs) =
            (if ''value'' \<in> fst ` set kvs then own kvs ''value'' else JObj kvs)) \<and>
         (\<forall>v. (\<forall>kvs. v \<noteq> JObj kvs) \<longrightarrow> parseCell v = v) \<and>
         (\<forall>extra. mapRow e t (JArr (take (length (columns t)) cells @ extra)) = Inr line)"
proof -
  have dist: "distinct (columns t)" using assms(1) by (rule ordinaryTable_distinct)
  from assms(4) obtain m where m: "mapRecord e t (JArr cells) = Inr m"
    and line: "line = JSON_stringify e (JObj m)"
    by (auto simp: mapRow_def bindE_def split: sum.splits)
  have nn: "\<not> nullish (JArr cells)" by simp
  note fields = mapRecord_fields [OF m nn dist]
  have vals: "\<forall>j < length (columns t).
      own m (columns t ! j) =
        (if columns t ! j \<in> set (numericColumns t)
         then coerceValue e (parseCell (cells ! j)) else parseCell (cells ! j)) \<and>
      own m (columns t ! j) \<noteq> JUndefined"
  proof (intro allI impI)
    fix j assume j: "j < length (columns t)"
    then have c: "cellAt (JArr cells) j = cells ! j"
      using assms(2) by (simp add: cellAt_array)
    have "isJson (cells ! j)" using assms(2,3) j by (simp add: list_all_length)
    then have d: "parseCell (cells ! j) \<noteq> JUndefined"
      by (intro isJson_defined parseCell_isJson)
    have v: "own m (columns t ! j) =
        (if columns t ! j \<in> set (numericColumns t)
         then coerceValue e (parseCell (cells ! j)) else parseCell (cells ! j))"
      using fields j c by simp
    have "own m (columns t ! j) \<noteq> JUndefined"
    proof (cases "columns t ! j \<in> set (numericColumns t)")
      case True
      from mapRecord_numeric [OF m dist j True] show ?thesis by auto
    next
      case False
      with v d show ?thesis by simp
    qed
    with v show "own m (columns t ! j) =
        (if columns t ! j \<in> set (numericColumns t)
         then coerceValue e (parseCell (cells ! j)) else parseCell (cells ! j)) \<and>
      own m (columns t ! j) \<noteq> JUndefined" by simp
  qed
  have pc: "\<forall>v. (\<forall>kvs. v \<noteq> JObj kvs) \<longrightarrow> parseCell v = v"
  proof (intro allI impI)
    fix v :: jsval assume "\<forall>kvs. v \<noteq> JObj kvs"
    then show "parseCell v = v" by (cases v) (simp_all add: parseCell_def)
  qed
  have ex: "\<forall>extra. mapRow e t (JArr (take (length (columns t)) cells @ extra)) = Inr line"
    using assms(4) mapRecord_prefix [OF dist assms(2)] by (simp add: mapRow_def)
  have keys: "map fst m = columns t" using fields by (rule conjunct1)
  have pcs: "\<forall>kvs. parseCell (JObj kvs) =
      (if ''value'' \<in> fst ` set kvs then own kvs ''value'' else JObj kvs)"
    by (simp add: parseCell_cases)
  from m line keys vals have "\<exists>m. mapRecord e t (JArr cells) = Inr m \<and>
      line = JSON_stringify e (JObj m) \<and> map fst m = columns t \<and>
      (\<forall>j < length (columns t).
         own m (columns t ! j) =
           (if columns t ! j \<in> set (numericColumns t)
            then coerceValue e (parseCell (cells ! j)) else parseCell (cells ! j)) \<and>
         own m (columns t ! j) \<noteq> JUndefined)"
    by blast
  with pcs pc ex show ?thesis by blast
qed

lemma rowA_cells:
  "rowA = JArr [textCell ''u1'', textCell ''Asha'', textCell ''7'', textCell ''42'',
                textCell ''93'', textCell ''2024-03-01T10:00:00Z'',
                textCell ''2024-03-01T10:00:00Z'']"
  by (simp add: rowA_def)

lemma rowA_line:
  "mapRow exampleEnv leaderboard rowA =
     Inr (jsonText (JObj [(''user_id'', JStr ''u1''), (''display_name'', JStr ''Asha''),
          (''highest_level'', JNum (Fin 7)), (''total_kites_cut'', JNum (Fin 42)),
          (''best_time_seconds'', JNum (Fin 93)),
          (''updated_at'', JStr ''2024-03-01T10:00:00Z'')]))"
  by code_simp

lemma rowA_hyps:
  "length (columns leaderboard) \<le>
     length [textCell ''u1'', textCell ''Asha'', textCell ''7'', textCell ''42'',
             textCell ''93'', textCell ''2024-03-01T10:00:00Z'',
             textCell ''2024-03-01T10:00:00Z'']"
  "list_all isJson [textCell ''u1'', textCell ''Asha'', textCell ''7'', textCell ''42'',
             textCell ''93'', textCell ''2024-03-01T10:00:00Z'',
             textCell ''2024-03-01T10:00:00Z'']"
  by (simp_all add: leaderboard_columns textCell_def)

theorem output_record_layout_witness:
  "\<exists>m. mapRecord exampleEnv leaderboard rowA = Inr m \<and>
        map fst m = [''user_id'', ''display_name'', ''highest_level'', ''total_kites_cut'',
                     ''best_time_seconds'', ''updated_at'']"
proof -
  from output_record_layout [OF leaderboard_ordinary rowA_hyps rowA_line [unfolded rowA_cells]]
  obtain m where "mapRecord exampleEnv leaderboard rowA = Inr m"
    "map fst m = columns leaderboard"
    unfolding rowA_cells by blast
  then show ?thesis by (auto simp: leaderboard_columns)
qed

subsection \<open>The checkpoint file\<close>

lemma loadCursors_cases:
  "loadCursors e w =
     (case files w (CURSOR_PATH e) of
        None \<Rightarrow> Inr (JObj [])
      | Some raw \<Rightarrow> (case JSON_parse e raw of None \<Rightarrow> Inr (JObj []) | Some v \<Rightarrow> Inr v))"
  by (simp add: loadCursors_def tryCatch_def bindE_def readFileSync_def parseJson_def
      split: option.splits)

lemma loadCursors_total: "\<exists>v. loadCursors e w = Inr v"
  by (simp add: loadCursors_cases split: option.splits)

text \<open>
  Claim C7. Loading the checkpoint is never fatal: \<open>loadCursors\<close> always returns a value;
  it returns the parsed value when the file exists and parses, and an empty mapping when
  the file is absent or does not parse.
\<close>

theorem loadCursors_never_fatal:
  "(\<exists>v. loadCursors e w = Inr v) \<and>
   (\<forall>raw v. files w (CURSOR_PATH e) = Some raw \<and> JSON_parse e raw = Some v \<longrightarrow>
      loadCursors e w = Inr v) \<and>
   (files w (CURSOR_PATH e) = None \<longrightarrow> loadCursors e w = Inr (JObj [])) \<and>
   (\<forall>raw. files w (CURSOR_PATH e) = Some raw \<and> JSON_parse e raw = None \<longrightarrow>
      loadCursors e w = Inr (JObj []))"
  using loadCursors_total [of e w] by (simp add: loadCursors_cases)

lemma example_checkpoint_file:
  "files staleWorld (CURSOR_PATH exampleEnv) = Some (jsonPretty [] checkpoint)"
  "JSON_parse exampleEnv (jsonPretty [] checkpoint) = Some checkpoint"
  "files emptyWorld (CURSOR_PATH exampleEnv) = None"
  "files garbledWorld (CURSOR_PATH exampleEnv) = Some ''{oops''"
  "JSON_parse exampleEnv ''{oops'' = None"
  by code_simp+

theorem loadCursors_never_fatal_witness:
  "loadCursors exampleEnv staleWorld = Inr checkpoint \<and>
   loadCursors exampleEnv emptyWorld = Inr (JObj []) \<and>
   loadCursors exampleEnv garbledWorld = Inr (JObj [])"
  using loadCursors_never_fatal [of exampleEnv staleWorld]
    loadCursors_never_fatal [of exampleEnv emptyWorld]
    loadCursors_never_fatal [of exampleEnv garbledWorld]
    example_checkpoint_file
  by blast

subsection \<open>A run that fetches no row\<close>

text \<open>
  Claim C6. For a table with ordinary names, after a run of \<open>exportTable\<close> that returns
  and in which no page had a row, the output file of the table does not exist, whatever
  it held before, the checkpoint map is the one the run started with, and no other file
  has changed.
\<close>

theorem zero_row_run:
  assumes "ordinaryTable t"
    and "exportTable e t cursors w = (Inr cursors', w')"
    and "\<not> wrote (newCalls w w')"
  shows "files w' (outFileOf e t) = None \<and> cursors' = cursors \<and>
         (\<forall>p. p \<noteq> outFileOf e t \<longrightarrow> files w' p = files w p)"
proof -
  have nn: "\<not> nullish cursors"
    using assms(2) by (auto simp: exportTable_nullish)
  from exportTable_effect [OF assms(2) nn] obtain new where new:
    "calls w' = calls w @ new"
    "\<forall>p. p \<noteq> outFileOf e t \<longrightarrow> files w' p = files w p"
    "\<not> wrote new \<longrightarrow> files w' = (files w)(outFileOf e t := None)"
    "\<forall>c. Inr cursors' = Inr c \<longrightarrow> stopped e (MAX_PAGES e) new \<and>
        (if wrote new
         then setProp cursors (name t) (finalWatermark t (initialCursor e t cursors) new) = Inr c
         else c = cursors)"
    by blast
  have "newCalls w w' = new" using new(1) by (rule newCalls_append)
  with assms(3) have nw: "\<not> wrote new" by simp
  with new(3) have "files w' (outFileOf e t) = None" by simp
  moreover from new(4) nw have "cursors' = cursors" by simp
  ultimately show ?thesis using new(2) by blast
qed

lemma example_zero_run:
  "fst (exportTable exampleEnv leaderboard checkpoint staleWorld) = Inr checkpoint"
  "\<not> wrote (newCalls staleWorld (snd (exportTable exampleEnv leaderboard checkpoint staleWorld)))"
  "files staleWorld (outFileOf exampleEnv leaderboard) = Some ''stale''"
  by code_simp+

theorem zero_row_run_witness:
  "files staleWorld (outFileOf exampleEnv leaderboard) = Some ''stale'' \<and>
   files (snd (exportTable exampleEnv leaderboard checkpoint staleWorld))
     (outFileOf exampleEnv leaderboard) = None \<and>
   fst (exportTable exampleEnv leaderboard checkpoint staleWorld) = Inr checkpoint"
proof -
  have run: "exportTable exampleEnv leaderboard checkpoint staleWorld =
      (Inr checkpoint, snd (exportTable exampleEnv leaderboard checkpoint staleWorld))"
    using example_zero_run(1) by (simp add: prod_eq_iff)
  from zero_row_run [OF leaderboard_ordinary run example_zero_run(2)] example_zero_run
  show ?thesis by blast
qed

subsection \<open>A run that fails\<close>

lemma exportTable_frame:
  assumes "exportTable e t cursors w = (res, w')" "p \<noteq> outFileOf e t"
  shows "files w' p = files w p"
proof (cases "nullish cursors")
  case True
  with assms(1) show ?thesis by (simp add: exportTable_nullish)
next
  case False
  from exportTable_effect [OF assms(1) False] assms(2) show ?thesis by blast
qed

lemma exportAll_frame:
  "exportAll e ts cursors w = (res, w') \<Longrightarrow> p \<notin> outFileOf e ` set ts \<Longrightarrow>
   files w' p = files w p"
proof (induction ts arbitrary: cursors w)
  case Nil
  then show ?case by simp
next
  case (Cons t ts)
  obtain r w1 where r: "exportTable e t cursors w = (r, w1)"
    by (cases "exportTable e t cursors w")
  have f1: "files w1 p = files w p"
    using exportTable_frame [OF r] Cons.prems(2) by simp
  show ?case
  proof (cases r)
    case (Inl err)
    with Cons.prems(1) r have "w' = w1" by simp
    with f1 show ?thesis by simp
  next
    case (Inr c1)
    with Cons.prems(1) r have "exportAll e ts c1 w1 = (res, w')" by simp
    from Cons.IH [OF this] Cons.prems(2) f1 show ?thesis by simp
  qed
qed

text \<open>An exception in the export of one table is the outcome of \<open>main\<close>.\<close>

lemma exportAll_aborts:
  "exportAll e before cursors w = (Inr cursors1, w1) \<Longrightarrow>
   exportTable e t cursors1 w1 = (Inl err, w2) \<Longrightarrow>
   exportAll e (before @ t # rest) cursors w = (Inl err, w2)"
  by (induction before arbitrary: cursors w) (auto split: prod.splits sum.splits)

lemma main_aborts:
  assumes "TABLES = before @ t # rest"
    and "loadCursors e (ensureDir w (OUTPUT_DIR e)) = Inr cursors"
    and "exportAll e before cursors (ensureDir w (OUTPUT_DIR e)) = (Inr cursors1, w1)"
    and "exportTable e t cursors1 w1 = (Inl err, w2)"
  shows "main e w = (Inl err, w2)"
  using exportAll_aborts [OF assms(3,4), of rest] assms(1,2)
  by (simp add: main_def Let_def)

text \<open>
  Claim C2. Atomic commit of the checkpoint: when \<open>main\<close> ends with an exception, as it
  does when the export of any table throws, \<open>saveCursors\<close> has not run, and the checkpoint
  file is what it was before the run, provided it is not itself the output file of a
  table.
\<close>

theorem failed_run_keeps_checkpoint:
  assumes "main e w = (Inl err, w')"
    and "CURSOR_PATH e \<notin> outFileOf e ` set TABLES"
  shows "files w' (CURSOR_PATH e) = files w (CURSOR_PATH e)"
proof -
  let ?w1 = "ensureDir w (OUTPUT_DIR e)"
  have f0: "files ?w1 = files w" by (simp add: ensureDir_def)
  obtain cursors where lc: "loadCursors e ?w1 = Inr cursors"
    using loadCursors_total by blast
  obtain r w2 where r: "exportAll e TABLES cursors ?w1 = (r, w2)"
    by (cases "exportAll e TABLES cursors ?w1")
  from assms(1) lc r have "w' = w2"
    by (auto simp: main_def Let_def split: sum.splits)
  with exportAll_frame [OF r assms(2)] f0 show ?thesis by simp
qed

lemma example_failed_run:
  "fst (main failingEnv staleWorld) = Inl (TursoHttp 500 ''down'')"
  "CURSOR_PATH failingEnv \<notin> outFileOf failingEnv ` set TABLES"
  "files staleWorld (CURSOR_PATH failingEnv) = Some (jsonPretty [] checkpoint)"
  "map fst (calls (snd (main failingEnv staleWorld))) =
     [[JStr ''1970-01-01T00:00:00Z'', JNum (Fin 1)], [JStr ''1970-01-01T00:00:00Z'', JNum (Fin 1)]]"
  by code_simp+

theorem failed_run_keeps_checkpoint_witness:
  "fst (main failingEnv staleWorld) = Inl (TursoHttp 500 ''down'') \<and>
   files (snd (main failingEnv staleWorld)) (CURSOR_PATH failingEnv) =
     Some (jsonPretty [] checkpoint)"
proof -
  have run: "main failingEnv staleWorld =
      (Inl (TursoHttp 500 ''down''), snd (main failingEnv staleWorld))"
    using example_failed_run(1) by (simp add: prod_eq_iff)
  from failed_run_keeps_checkpoint [OF run example_failed_run(2)] example_failed_run(1,3)
  show ?thesis by simp
qed

end
